theory Spec2Isabelle
  imports Complex_Main "HOL-Library.AList"
begin

section \<open>Python values, exceptions and dictionaries\<close>

text \<open>
  The simulator is Python. Its exceptions are values of \<open>error\<close>; a function that can
  raise returns \<open>error + 'a\<close> with \<open>Inl\<close> for the exception. A \<open>dict\<close> is an
  association list in insertion order with distinct keys: \<open>d[k] = v\<close> is
  \<open>AList.update k v d\<close> (an existing key keeps its place, a new one goes to the end),
  \<open>d[k]\<close> raises \<open>KeyError\<close> on a missing key, iteration follows the list.
  A value of type \<open>Any\<close> (a sensor reading's value) is a \<open>pyval\<close>; floats are
  modelled by reals. A \<open>string\<close> stands for a Python \<open>str\<close> whose code points are
  all below 256, one \<open>char\<close> for each code point.
\<close>

datatype error = ValueError | KeyError | IndexError

datatype pyval = VNone | VBool bool | VFloat real | VDict "(string \<times> pyval) list"

fun truthy :: "pyval \<Rightarrow> bool" where
  "truthy VNone = False"
| "truthy (VBool b) = b"
| "truthy (VFloat r) = (r \<noteq> 0)"
| "truthy (VDict d) = (d \<noteq> [])"

definition dict_getitem :: "('k \<times> 'v) list \<Rightarrow> 'k \<Rightarrow> error + 'v" where
  "dict_getitem d k = (case map_of d k of None \<Rightarrow> Inl KeyError | Some v \<Rightarrow> Inr v)"

definition dict_get :: "('k \<times> 'v) list \<Rightarrow> 'k \<Rightarrow> 'v \<Rightarrow> 'v" where
  "dict_get d k dflt = (case map_of d k of None \<Rightarrow> dflt | Some v \<Rightarrow> v)"

definition dict_contains :: "('k \<times> 'v) list \<Rightarrow> 'k \<Rightarrow> bool" where
  "dict_contains d k = (map_of d k \<noteq> None)"

definition range_py :: "int \<Rightarrow> int list" where
  "range_py n = map int [0..<nat n]"

subsection \<open>Strings: \<open>startswith\<close>, \<open>split\<close>, \<open>int\<close> and \<open>str\<close>\<close>

definition startswith :: "string \<Rightarrow> string \<Rightarrow> bool" where
  "startswith s p = (take (length p) s = p)"

text \<open>\<open>s.split(c)\<close> for a one-character separator: never empty, \<open>"".split("_") = [""]\<close>.\<close>

fun split_py :: "char \<Rightarrow> string \<Rightarrow> string list" where
  "split_py c [] = [[]]"
| "split_py c (x # xs) =
     (if x = c then [] # split_py c xs
      else (case split_py c xs of
              [] \<Rightarrow> [[x]]
            | w # ws \<Rightarrow> (x # w) # ws))"

text \<open>
  \<open>int(s)\<close> in base 10. CPython maps every non-ASCII whitespace character of the
  string to a blank (below 256 these are U+0085 and U+00A0), skips the C whitespace
  characters (blank, TAB, LF, VT, FF, CR) at both ends, and then wants one optional
  sign followed by at least one decimal digit and nothing else; anything else raises
  \<open>ValueError\<close>. The separators U+001C to U+001F are not skipped. Below 256 the only
  decimal digits are \<open>0\<close> to \<open>9\<close>. The digit-group underscore cannot occur in a piece
  of \<open>split("_")\<close>. CPython also refuses a string of more digits than
  \<open>sys.int_max_str_digits\<close> (4300 by default, and never set below 640); that limit is
  not modelled, so what is stated of \<open>int\<close> on arbitrary names is stated for names of
  at most 640 characters.
\<close>

definition is_space :: "char \<Rightarrow> bool" where
  "is_space c = (c \<in> set [CHR '' '', CHR 0x09, CHR 0x0A, CHR 0x0B, CHR 0x0C, CHR 0x0D,
                           CHR 0x85, CHR 0xA0])"

definition strip :: "string \<Rightarrow> string" where
  "strip s = rev (dropWhile is_space (rev (dropWhile is_space s)))"

definition is_digit :: "char \<Rightarrow> bool" where
  "is_digit c = (c \<in> set ''0123456789'')"

definition digit_val :: "char \<Rightarrow> nat" where
  "digit_val c = of_char c - 48"

definition digits_val :: "string \<Rightarrow> nat option" where
  "digits_val s =
     (if s \<noteq> [] \<and> list_all is_digit s
      then Some (foldl (\<lambda>acc c. 10 * acc + digit_val c) 0 s) else None)"

definition py_int :: "string \<Rightarrow> error + int" where
  "py_int s =
     (case strip s of
        [] \<Rightarrow> Inl ValueError
      | c # r \<Rightarrow>
          if c = CHR ''-'' then
            (case digits_val r of None \<Rightarrow> Inl ValueError | Some n \<Rightarrow> Inr (- int n))
          else if c = CHR ''+'' then
            (case digits_val r of None \<Rightarrow> Inl ValueError | Some n \<Rightarrow> Inr (int n))
          else
            (case digits_val (c # r) of None \<Rightarrow> Inl ValueError | Some n \<Rightarrow> Inr (int n)))"

definition digit_char :: "nat \<Rightarrow> char" where
  "digit_char d = ''0123456789'' ! d"

fun str_nat :: "nat \<Rightarrow> string" where
  "str_nat n = (if n < 10 then [digit_char n] else str_nat (n div 10) @ [digit_char (n mod 10)])"

declare str_nat.simps [simp del]

definition str_int :: "int \<Rightarrow> string" where
  "str_int i = (if i < 0 then CHR ''-'' # str_nat (nat (- i)) else str_nat (nat i))"

section \<open>Vehicles (\<open>simulation/vehicles.py\<close>)\<close>

datatype VehicleState = APPROACHING | WAITING | ENTERING | PARKING | CHARGING | EXITING | DEPARTED

record Vehicle =
  vehicle_id :: string
  state :: VehicleState
  assigned_spot :: "int option"
  assigned_charger :: "int option"
  charge_level :: real
  target_charge :: real
  arrival_time :: int
  departure_time :: "int option"

text \<open>\<open>Vehicle.create_new\<close>; the id is the first 8 characters of a fresh uuid, an input here.\<close>

definition create_new :: "string \<Rightarrow> int \<Rightarrow> Vehicle" where
  "create_new new_id arrival =
     \<lparr>vehicle_id = new_id, state = APPROACHING, assigned_spot = None, assigned_charger = None,
      charge_level = 0.2, target_charge = 0.8, arrival_time = arrival, departure_time = None\<rparr>"

definition is_charging_complete :: "Vehicle \<Rightarrow> bool" where
  "is_charging_complete v = (charge_level v \<ge> target_charge v)"

definition update_charge :: "real \<Rightarrow> Vehicle \<Rightarrow> Vehicle" where
  "update_charge charge_rate v =
     (if state v = CHARGING then v\<lparr>charge_level := min 1 (charge_level v + charge_rate)\<rparr> else v)"

definition can_depart :: "Vehicle \<Rightarrow> bool" where
  "can_depart v = (state v = CHARGING \<and> is_charging_complete v)"

text \<open>
  \<open>VehicleManager\<close>: \<open>vehicles\<close> maps an id to its vehicle object, \<open>vehicle_positions\<close>
  a spot id to \<open>Optional[str]\<close>. A vehicle object is reached only through its entry in
  \<open>vehicles\<close>, so mutating the object is updating the entry.
\<close>

record VehicleManager =
  vehicles :: "(string \<times> Vehicle) list"
  vehicle_positions :: "(int \<times> string option) list"

definition VehicleManager_init :: VehicleManager where
  "VehicleManager_init = \<lparr>vehicles = [], vehicle_positions = []\<rparr>"

definition add_vehicle :: "Vehicle \<Rightarrow> VehicleManager \<Rightarrow> VehicleManager" where
  "add_vehicle v vm = vm\<lparr>vehicles := AList.update (vehicle_id v) v (vehicles vm)\<rparr>"

definition spot_occupied :: "VehicleManager \<Rightarrow> int \<Rightarrow> bool" where
  "spot_occupied vm spot_id =
     (case map_of (vehicle_positions vm) spot_id of
        None \<Rightarrow> False
      | Some None \<Rightarrow> False
      | Some (Some _) \<Rightarrow> True)"

definition assign_spot :: "string \<Rightarrow> int \<Rightarrow> VehicleManager \<Rightarrow> bool \<times> VehicleManager" where
  "assign_spot vid spot_id vm =
     (if spot_occupied vm spot_id then (False, vm)
      else (case map_of (vehicles vm) vid of
              None \<Rightarrow> (False, vm)
            | Some vehicle \<Rightarrow>
                let pos1 = (case assigned_spot vehicle of
                              None \<Rightarrow> vehicle_positions vm
                            | Some old \<Rightarrow> AList.update old None (vehicle_positions vm))
                in (True, vm\<lparr>vehicles := AList.update vid (vehicle\<lparr>assigned_spot := Some spot_id\<rparr>)
                                           (vehicles vm),
                              vehicle_positions := AList.update spot_id (Some vid) pos1\<rparr>)))"

definition free_spot :: "int \<Rightarrow> VehicleManager \<Rightarrow> VehicleManager" where
  "free_spot spot_id vm =
     (case map_of (vehicle_positions vm) spot_id of
        None \<Rightarrow> vm
      | Some holder \<Rightarrow>
          vm\<lparr>vehicles :=
               (case holder of
                  None \<Rightarrow> vehicles vm
                | Some vid \<Rightarrow>
                    if vid \<noteq> [] \<and> dict_contains (vehicles vm) vid
                    then AList.map_entry vid (\<lambda>v. v\<lparr>assigned_spot := None\<rparr>) (vehicles vm)
                    else vehicles vm),
             vehicle_positions := AList.update spot_id None (vehicle_positions vm)\<rparr>)"

definition get_vehicles_by_state :: "VehicleState \<Rightarrow> VehicleManager \<Rightarrow> Vehicle list" where
  "get_vehicles_by_state s vm = filter (\<lambda>v. state v = s) (map snd (vehicles vm))"

definition update_all_vehicles :: "VehicleManager \<Rightarrow> VehicleManager" where
  "update_all_vehicles vm =
     vm\<lparr>vehicles := map (\<lambda>(k, v). (k, update_charge 0.05 v)) (vehicles vm)\<rparr>"

fun spot_claims :: "Vehicle list \<Rightarrow> (int \<times> string list) list \<Rightarrow> (int \<times> string list) list" where
  "spot_claims [] claims = claims"
| "spot_claims (v # vs) claims =
     (case assigned_spot v of
        None \<Rightarrow> spot_claims vs claims
      | Some s \<Rightarrow> spot_claims vs (AList.update s (dict_get claims s [] @ [vehicle_id v]) claims))"

definition detect_occupancy_conflicts :: "VehicleManager \<Rightarrow> (int \<times> string list) list" where
  "detect_occupancy_conflicts vm =
     filter (\<lambda>(spot_id, vehicle_ids). length vehicle_ids > 1)
            (spot_claims (map snd (vehicles vm)) [])"

section \<open>Sensors (\<open>simulation/sensors.py\<close>)\<close>

text \<open>
  Every \<open>random.random()\<close> of the source is an input of the model: a read takes the
  number it draws. \<open>GateSensor\<close> and \<open>ChargerSensor\<close> both have fields \<open>is_failed\<close>
  and \<open>failure_rate\<close>; the record fields carry the sensor kind in their name.
\<close>

datatype SensorType = GATE | OCCUPANCY | CHARGER

record SensorReading =
  sensor_name :: string
  sensor_type :: SensorType
  reading_value :: pyval
  is_fault :: bool
  reading_noise_level :: real

record GateSensor =
  gate_id :: int
  is_open :: bool
  gate_is_failed :: bool
  gate_failure_rate :: real

definition GateSensor_init :: "int \<Rightarrow> GateSensor" where
  "GateSensor_init i = \<lparr>gate_id = i, is_open = False, gate_is_failed = False,
                         gate_failure_rate = 0.01\<rparr>"

definition gate_read :: "real \<Rightarrow> GateSensor \<Rightarrow> SensorReading \<times> GateSensor" where
  "gate_read draw g =
     (let g' = (if draw < gate_failure_rate g then g\<lparr>gate_is_failed := True\<rparr> else g)
      in (\<lparr>sensor_name = ''gate_'' @ str_int (gate_id g'), sensor_type = GATE,
            reading_value = VBool (is_open g' \<and> \<not> gate_is_failed g'),
            is_fault = gate_is_failed g', reading_noise_level = 0\<rparr>, g'))"

definition set_state :: "bool \<Rightarrow> GateSensor \<Rightarrow> GateSensor" where
  "set_state b g = (if \<not> gate_is_failed g then g\<lparr>is_open := b\<rparr> else g)"

record OccupancySensor =
  spot_id :: int
  is_occupied :: bool
  noise_rate :: real

definition OccupancySensor_init :: "int \<Rightarrow> OccupancySensor" where
  "OccupancySensor_init i = \<lparr>spot_id = i, is_occupied = False, noise_rate = 0.05\<rparr>"

definition occupancy_read :: "real \<Rightarrow> OccupancySensor \<Rightarrow> SensorReading \<times> OccupancySensor" where
  "occupancy_read draw s =
     (let noise = (draw < noise_rate s);
          actual_reading = (if noise then \<not> is_occupied s else is_occupied s)
      in (\<lparr>sensor_name = ''spot_'' @ str_int (spot_id s), sensor_type = OCCUPANCY,
            reading_value = VBool actual_reading, is_fault = noise,
            reading_noise_level = noise_rate s\<rparr>, s))"

definition set_occupancy :: "bool \<Rightarrow> OccupancySensor \<Rightarrow> OccupancySensor" where
  "set_occupancy b s = s\<lparr>is_occupied := b\<rparr>"

record ChargerSensor =
  charger_id :: int
  is_connected :: bool
  is_charging :: bool
  charger_is_failed :: bool
  charger_failure_rate :: real
  power_output :: real

definition ChargerSensor_init :: "int \<Rightarrow> ChargerSensor" where
  "ChargerSensor_init i = \<lparr>charger_id = i, is_connected = False, is_charging = False,
                            charger_is_failed = False, charger_failure_rate = 0.02,
                            power_output = 0\<rparr>"

definition charger_read :: "real \<Rightarrow> ChargerSensor \<Rightarrow> SensorReading \<times> ChargerSensor" where
  "charger_read draw c =
     (let c' = (if draw < charger_failure_rate c
                then c\<lparr>charger_is_failed := True, is_charging := False, power_output := 0\<rparr>
                else c);
          status = [(''connected'', VBool (is_connected c')),
                    (''charging'', VBool (is_charging c' \<and> \<not> charger_is_failed c')),
                    (''power_kw'', VFloat (if \<not> charger_is_failed c' then power_output c' else 0)),
                    (''failed'', VBool (charger_is_failed c'))]
      in (\<lparr>sensor_name = ''charger_'' @ str_int (charger_id c'), sensor_type = CHARGER,
            reading_value = VDict status, is_fault = charger_is_failed c',
            reading_noise_level = 0\<rparr>, c'))"

definition connect_vehicle :: "ChargerSensor \<Rightarrow> ChargerSensor" where
  "connect_vehicle c = c\<lparr>is_connected := True\<rparr>"

definition disconnect_vehicle :: "ChargerSensor \<Rightarrow> ChargerSensor" where
  "disconnect_vehicle c = c\<lparr>is_connected := False, is_charging := False, power_output := 0\<rparr>"

definition start_charging :: "real \<Rightarrow> ChargerSensor \<Rightarrow> ChargerSensor" where
  "start_charging power_kw c =
     (if \<not> charger_is_failed c \<and> is_connected c
      then c\<lparr>is_charging := True, power_output := power_kw\<rparr> else c)"

definition stop_charging :: "ChargerSensor \<Rightarrow> ChargerSensor" where
  "stop_charging c = c\<lparr>is_charging := False, power_output := 0\<rparr>"

text \<open>
  \<open>SensorNetwork\<close> keeps three dicts from device id to sensor. The draws of one
  \<open>read_all_sensors\<close> are given per device id; the sensors are read gates first, then
  spots, then chargers, each dict in its own order.
\<close>

record SensorNetwork =
  gates :: "(int \<times> GateSensor) list"
  occupancy_sensors :: "(int \<times> OccupancySensor) list"
  chargers :: "(int \<times> ChargerSensor) list"

definition SensorNetwork_init :: "int \<Rightarrow> int \<Rightarrow> int \<Rightarrow> SensorNetwork" where
  "SensorNetwork_init n_gates n_spots n_chargers =
     \<lparr>gates = map (\<lambda>i. (i, GateSensor_init i)) (range_py n_gates),
      occupancy_sensors = map (\<lambda>i. (i, OccupancySensor_init i)) (range_py n_spots),
      chargers = map (\<lambda>i. (i, ChargerSensor_init i)) (range_py n_chargers)\<rparr>"

text \<open>
  One of the three loops of \<open>read_all_sensors\<close>: \<open>rd\<close> is the sensor's \<open>read\<close>, the
  readings dict is extended under the reading's name, the sensor is left as the read
  left it.
\<close>

fun read_sensors ::
  "(real \<Rightarrow> 's \<Rightarrow> SensorReading \<times> 's) \<Rightarrow> (int \<Rightarrow> real) \<Rightarrow> (int \<times> 's) list \<Rightarrow>
   (string \<times> SensorReading) list \<Rightarrow> (string \<times> SensorReading) list \<times> (int \<times> 's) list" where
  "read_sensors rd draws [] readings = (readings, [])"
| "read_sensors rd draws ((i, sensor) # rest) readings =
     (case rd (draws i) sensor of
        (reading, sensor') \<Rightarrow>
          (case read_sensors rd draws rest (AList.update (sensor_name reading) reading readings) of
             (readings', rest') \<Rightarrow> (readings', (i, sensor') # rest')))"

record SensorDraws =
  gate_draws :: "int \<Rightarrow> real"
  spot_draws :: "int \<Rightarrow> real"
  charger_draws :: "int \<Rightarrow> real"

definition read_all_sensors ::
  "SensorDraws \<Rightarrow> SensorNetwork \<Rightarrow> (string \<times> SensorReading) list \<times> SensorNetwork" where
  "read_all_sensors d net =
     (case read_sensors gate_read (gate_draws d) (gates net) [] of
        (r1, gs) \<Rightarrow>
          (case read_sensors occupancy_read (spot_draws d) (occupancy_sensors net) r1 of
             (r2, os) \<Rightarrow>
               (case read_sensors charger_read (charger_draws d) (chargers net) r2 of
                  (r3, cs) \<Rightarrow>
                    (r3, \<lparr>gates = gs, occupancy_sensors = os, chargers = cs\<rparr>))))"

text \<open>\<open>int(sensor_name.split("_")[1])\<close>, as \<open>get_sensor\<close> and the controller compute it.\<close>

definition sensor_index :: "string \<Rightarrow> error + int" where
  "sensor_index name =
     (case split_py CHR ''_'' name of
        _ # seg # _ \<Rightarrow> py_int seg
      | _ \<Rightarrow> Inl IndexError)"

datatype sensor_ref = GateRef int | SpotRef int | ChargerRef int

text \<open>
  \<open>get_sensor\<close> returns the sensor object or \<open>None\<close>; the model returns which sensor
  it is.
\<close>

definition get_sensor :: "string \<Rightarrow> SensorNetwork \<Rightarrow> error + sensor_ref option" where
  "get_sensor name net =
     (if startswith name ''gate_'' then
        (case sensor_index name of
           Inl e \<Rightarrow> Inl e
         | Inr i \<Rightarrow> Inr (if dict_contains (gates net) i then Some (GateRef i) else None))
      else if startswith name ''spot_'' then
        (case sensor_index name of
           Inl e \<Rightarrow> Inl e
         | Inr i \<Rightarrow> Inr (if dict_contains (occupancy_sensors net) i then Some (SpotRef i) else None))
      else if startswith name ''charger_'' then
        (case sensor_index name of
           Inl e \<Rightarrow> Inl e
         | Inr i \<Rightarrow> Inr (if dict_contains (chargers net) i then Some (ChargerRef i) else None))
      else Inr None)"

text \<open>\<open>inject_fault\<close>: an occupancy sensor has no attribute \<open>is_failed\<close> and is left alone.\<close>

definition inject_fault :: "string \<Rightarrow> SensorNetwork \<Rightarrow> error + SensorNetwork" where
  "inject_fault name net =
     (case get_sensor name net of
        Inl e \<Rightarrow> Inl e
      | Inr None \<Rightarrow> Inr net
      | Inr (Some (GateRef i)) \<Rightarrow>
          Inr (net\<lparr>gates := AList.map_entry i (\<lambda>g. g\<lparr>gate_is_failed := True\<rparr>) (gates net)\<rparr>)
      | Inr (Some (SpotRef i)) \<Rightarrow> Inr net
      | Inr (Some (ChargerRef i)) \<Rightarrow>
          Inr (net\<lparr>chargers :=
                     AList.map_entry i (\<lambda>c. c\<lparr>charger_is_failed := True\<rparr>) (chargers net)\<rparr>))"

section \<open>The depot controller (\<open>control/depot_controller.py\<close>)\<close>

text \<open>
  A \<open>ControlAction\<close> without its \<open>action_id\<close> (a fresh uuid).
\<close>

record ControlAction =
  action_step_id :: string
  controller :: string
  action_type :: string
  target :: string
  command :: string
  success :: bool

record DepotState =
  available_spots :: "int list"
  available_chargers :: "int list"
  gate_states :: "(int \<times> pyval) list"
  spot_occupancy :: "(int \<times> pyval) list"
  charger_status :: "(int \<times> (string \<times> pyval) list) list"

record DepotController =
  num_gates :: int
  num_spots :: int
  num_chargers :: int
  depot_state :: DepotState

definition DepotController_init :: "int \<Rightarrow> int \<Rightarrow> int \<Rightarrow> DepotController" where
  "DepotController_init n_gates n_spots n_chargers =
     \<lparr>num_gates = n_gates, num_spots = n_spots, num_chargers = n_chargers,
      depot_state =
        \<lparr>available_spots = range_py n_spots,
         available_chargers = range_py n_chargers,
         gate_states = map (\<lambda>i. (i, VBool False)) (range_py n_gates),
         spot_occupancy = map (\<lambda>i. (i, VBool False)) (range_py n_spots),
         charger_status =
           map (\<lambda>i. (i, [(''connected'', VBool False), (''charging'', VBool False)]))
               (range_py n_chargers)\<rparr>\<rparr>"

definition create_action ::
  "string \<Rightarrow> string \<Rightarrow> string \<Rightarrow> string \<Rightarrow> int \<Rightarrow> ControlAction" where
  "create_action ctl atype tgt cmd current_step =
     \<lparr>action_step_id = ''step_'' @ str_int current_step, controller = ctl,
      action_type = atype, target = tgt, command = cmd, success = True\<rparr>"

text \<open>The body of the loop of \<open>_update_depot_state\<close>, for one item of the readings dict.\<close>

definition update_reading :: "string \<times> SensorReading \<Rightarrow> DepotState \<Rightarrow> error + DepotState" where
  "update_reading item ds =
     (case item of (name, reading) \<Rightarrow>
        if startswith name ''gate_'' then
          (case sensor_index name of
             Inl e \<Rightarrow> Inl e
           | Inr i \<Rightarrow>
               Inr (ds\<lparr>gate_states := AList.update i (reading_value reading) (gate_states ds)\<rparr>))
        else if startswith name ''spot_'' then
          (case sensor_index name of
             Inl e \<Rightarrow> Inl e
           | Inr i \<Rightarrow>
               Inr (ds\<lparr>spot_occupancy :=
                          AList.update i (reading_value reading) (spot_occupancy ds)\<rparr>))
        else if startswith name ''charger_'' then
          (case sensor_index name of
             Inl e \<Rightarrow> Inl e
           | Inr i \<Rightarrow>
               (case reading_value reading of
                  VDict status \<Rightarrow>
                    Inr (ds\<lparr>charger_status := AList.update i status (charger_status ds)\<rparr>)
                | _ \<Rightarrow> Inr ds))
        else Inr ds)"

fun update_depot_state :: "(string \<times> SensorReading) list \<Rightarrow> DepotState \<Rightarrow> error + DepotState" where
  "update_depot_state [] ds = Inr ds"
| "update_depot_state (item # rest) ds =
     (case update_reading item ds of
        Inl e \<Rightarrow> Inl e
      | Inr ds' \<Rightarrow> update_depot_state rest ds')"

definition can_admit_vehicle :: "DepotState \<Rightarrow> bool" where
  "can_admit_vehicle ds =
     (let available_spots_n = length (filter (\<lambda>occupied. \<not> truthy occupied)
                                             (map snd (spot_occupancy ds)));
          working_chargers = length (filter (\<lambda>status. \<not> truthy (dict_get status ''failed'' (VBool False)))
                                            (map snd (charger_status ds)))
      in available_spots_n > 0 \<and> working_chargers > 0)"

text \<open>
  \<open>_assign_parking_spot\<close>: the loop over \<open>range(num_spots)\<close>, here over the spot ids
  still to try.
\<close>

fun assign_parking_spot_loop ::
  "int list \<Rightarrow> Vehicle \<Rightarrow> VehicleManager \<Rightarrow> DepotState \<Rightarrow> error + (int option \<times> VehicleManager)" where
  "assign_parking_spot_loop [] vehicle vm ds = Inr (None, vm)"
| "assign_parking_spot_loop (s # rest) vehicle vm ds =
     (case map_of (spot_occupancy ds) s of
        None \<Rightarrow> Inl KeyError
      | Some occupied \<Rightarrow>
          if \<not> truthy occupied then
            (case assign_spot (vehicle_id vehicle) s vm of
               (ok, vm') \<Rightarrow>
                 if ok then Inr (Some s, vm')
                 else assign_parking_spot_loop rest vehicle vm' ds)
          else assign_parking_spot_loop rest vehicle vm ds)"

definition assign_parking_spot ::
  "Vehicle \<Rightarrow> VehicleManager \<Rightarrow> DepotController \<Rightarrow> error + (int option \<times> VehicleManager)" where
  "assign_parking_spot vehicle vm ctl =
     assign_parking_spot_loop (range_py (num_spots ctl)) vehicle vm (depot_state ctl)"

fun assign_charger_loop :: "int list \<Rightarrow> DepotState \<Rightarrow> error + int option" where
  "assign_charger_loop [] ds = Inr None"
| "assign_charger_loop (c # rest) ds =
     (case map_of (charger_status ds) c of
        None \<Rightarrow> Inl KeyError
      | Some status \<Rightarrow>
          if \<not> truthy (dict_get status ''connected'' (VBool False)) \<and>
             \<not> truthy (dict_get status ''failed'' (VBool False))
          then Inr (Some c)
          else assign_charger_loop rest ds)"

definition assign_charger :: "DepotController \<Rightarrow> error + int option" where
  "assign_charger ctl = assign_charger_loop (range_py (num_chargers ctl)) (depot_state ctl)"

definition is_charger_failed :: "DepotController \<Rightarrow> int option \<Rightarrow> bool" where
  "is_charger_failed ctl charger =
     (case charger of
        None \<Rightarrow> False
      | Some c \<Rightarrow>
          truthy (dict_get (dict_get (charger_status (depot_state ctl)) c []) ''failed''
                           (VBool False)))"

definition free_vehicle_resources ::
  "Vehicle \<Rightarrow> VehicleManager \<Rightarrow> DepotController \<Rightarrow> error + (VehicleManager \<times> DepotController)" where
  "free_vehicle_resources vehicle vm ctl =
     (let vm' = (case assigned_spot vehicle of None \<Rightarrow> vm | Some s \<Rightarrow> free_spot s vm)
      in (case assigned_charger vehicle of
            None \<Rightarrow> Inr (vm', ctl)
          | Some c \<Rightarrow>
              (case map_of (charger_status (depot_state ctl)) c of
                 None \<Rightarrow> Inl KeyError
               | Some status \<Rightarrow>
                   let status' = AList.update ''charging'' (VBool False)
                                   (AList.update ''connected'' (VBool False) status);
                       ds = depot_state ctl
                   in Inr (vm', ctl\<lparr>depot_state :=
                                      ds\<lparr>charger_status :=
                                            AList.update c status' (charger_status ds)\<rparr>\<rparr>))))"

definition set_vehicle :: "string \<Rightarrow> (Vehicle \<Rightarrow> Vehicle) \<Rightarrow> VehicleManager \<Rightarrow> VehicleManager" where
  "set_vehicle k f vm = vm\<lparr>vehicles := AList.map_entry k f (vehicles vm)\<rparr>"

text \<open>
  \<open>_process_vehicle\<close> for the vehicle object stored under key \<open>k\<close>. The chain of
  \<open>if\<close>/\<open>elif\<close> has branches for APPROACHING, ENTERING, PARKING, CHARGING and EXITING
  and no \<open>else\<close>.
\<close>

definition process_vehicle ::
  "string \<Rightarrow> VehicleManager \<Rightarrow> DepotController \<Rightarrow> int \<Rightarrow>
   error + (VehicleManager \<times> DepotController \<times> ControlAction list)" where
  "process_vehicle k vm ctl current_step =
     (case map_of (vehicles vm) k of
        None \<Rightarrow> Inr (vm, ctl, [])
      | Some vehicle \<Rightarrow>
          if state vehicle = APPROACHING then
            (if can_admit_vehicle (depot_state ctl) then
               (case assign_parking_spot vehicle vm ctl of
                  Inl e \<Rightarrow> Inl e
                | Inr (Some spot, vm') \<Rightarrow>
                    Inr (set_vehicle k (\<lambda>v. v\<lparr>state := ENTERING\<rparr>) vm', ctl,
                         [create_action ''depot_controller'' ''vehicle_assignment''
                            (''vehicle_'' @ vehicle_id vehicle)
                            (''assign_spot_'' @ str_int spot) current_step])
                | Inr (None, vm') \<Rightarrow>
                    Inr (set_vehicle k (\<lambda>v. v\<lparr>state := WAITING\<rparr>) vm', ctl, []))
             else Inr (vm, ctl, []))
          else if state vehicle = ENTERING then
            Inr (set_vehicle k (\<lambda>v. v\<lparr>state := PARKING\<rparr>) vm, ctl, [])
          else if state vehicle = PARKING then
            (case assign_charger ctl of
               Inl e \<Rightarrow> Inl e
             | Inr None \<Rightarrow> Inr (vm, ctl, [])
             | Inr (Some charger) \<Rightarrow>
                 Inr (set_vehicle k (\<lambda>v. v\<lparr>assigned_charger := Some charger, state := CHARGING\<rparr>) vm,
                      ctl,
                      [create_action ''depot_controller'' ''charger_assignment''
                         (''charger_'' @ str_int charger) ''start_charging'' current_step]))
          else if state vehicle = CHARGING then
            (if can_depart vehicle then
               Inr (set_vehicle k (\<lambda>v. v\<lparr>state := EXITING\<rparr>) vm, ctl,
                    (case assigned_charger vehicle of
                       None \<Rightarrow> []
                     | Some c \<Rightarrow>
                         [create_action ''depot_controller'' ''charger_control''
                            (''charger_'' @ str_int c) ''stop_charging'' current_step]))
             else if is_charger_failed ctl (assigned_charger vehicle) then
               Inr (set_vehicle k (\<lambda>v. v\<lparr>state := WAITING\<rparr>) vm, ctl,
                    [create_action ''depot_controller'' ''fault_response''
                       (''vehicle_'' @ vehicle_id vehicle) ''charger_failure_detected''
                       current_step])
             else Inr (vm, ctl, []))
          else if state vehicle = EXITING then
            (case free_vehicle_resources vehicle vm ctl of
               Inl e \<Rightarrow> Inl e
             | Inr (vm', ctl') \<Rightarrow>
                 Inr (set_vehicle k (\<lambda>v. v\<lparr>state := DEPARTED,
                                            departure_time := Some current_step\<rparr>) vm',
                      ctl', []))
          else Inr (vm, ctl, []))"

text \<open>The loop of \<open>process_step\<close> over \<open>vehicle_manager.vehicles.values()\<close>, by key.\<close>

fun process_vehicles ::
  "string list \<Rightarrow> VehicleManager \<Rightarrow> DepotController \<Rightarrow> int \<Rightarrow>
   error + (VehicleManager \<times> DepotController \<times> ControlAction list)" where
  "process_vehicles [] vm ctl current_step = Inr (vm, ctl, [])"
| "process_vehicles (k # ks) vm ctl current_step =
     (case process_vehicle k vm ctl current_step of
        Inl e \<Rightarrow> Inl e
      | Inr (vm', ctl', acts) \<Rightarrow>
          (case process_vehicles ks vm' ctl' current_step of
             Inl e \<Rightarrow> Inl e
           | Inr (vm'', ctl'', acts') \<Rightarrow> Inr (vm'', ctl'', acts @ acts')))"

text \<open>
  \<open>_control_gates\<close>: \<open>should_open_gate\<close> is computed once, then the loop over
  \<open>range(num_gates)\<close> compares it with each gate's recorded state.
\<close>

definition should_open_gate :: "VehicleManager \<Rightarrow> DepotController \<Rightarrow> bool" where
  "should_open_gate vm ctl =
     ((length (get_vehicles_by_state WAITING vm) > 0 \<or>
       length (get_vehicles_by_state APPROACHING vm) > 0) \<and>
      can_admit_vehicle (depot_state ctl))"

definition gate_action :: "bool \<Rightarrow> pyval \<Rightarrow> int \<Rightarrow> int \<Rightarrow> ControlAction list" where
  "gate_action should_open current_state g current_step =
     (if should_open \<and> \<not> truthy current_state then
        [create_action ''depot_controller'' ''gate_control'' (''gate_'' @ str_int g) ''open''
           current_step]
      else if \<not> should_open \<and> truthy current_state then
        [create_action ''depot_controller'' ''gate_control'' (''gate_'' @ str_int g) ''close''
           current_step]
      else [])"

fun control_gates_loop ::
  "int list \<Rightarrow> bool \<Rightarrow> DepotState \<Rightarrow> int \<Rightarrow> error + ControlAction list" where
  "control_gates_loop [] should_open ds current_step = Inr []"
| "control_gates_loop (g # rest) should_open ds current_step =
     (case map_of (gate_states ds) g of
        None \<Rightarrow> Inl KeyError
      | Some current_state \<Rightarrow>
          (case control_gates_loop rest should_open ds current_step of
             Inl e \<Rightarrow> Inl e
           | Inr acts \<Rightarrow> Inr (gate_action should_open current_state g current_step @ acts)))"

definition control_gates ::
  "VehicleManager \<Rightarrow> DepotController \<Rightarrow> int \<Rightarrow> error + ControlAction list" where
  "control_gates vm ctl current_step =
     control_gates_loop (range_py (num_gates ctl)) (should_open_gate vm ctl) (depot_state ctl)
       current_step"

definition process_step ::
  "(string \<times> SensorReading) list \<Rightarrow> VehicleManager \<Rightarrow> DepotController \<Rightarrow> int \<Rightarrow>
   error + (VehicleManager \<times> DepotController \<times> ControlAction list)" where
  "process_step sensor_readings vm ctl current_step =
     (case update_depot_state sensor_readings (depot_state ctl) of
        Inl e \<Rightarrow> Inl e
      | Inr ds \<Rightarrow>
          (case process_vehicles (map fst (vehicles vm)) vm (ctl\<lparr>depot_state := ds\<rparr>) current_step of
             Inl e \<Rightarrow> Inl e
           | Inr (vm', ctl', acts) \<Rightarrow>
               (case control_gates vm' ctl' current_step of
                  Inl e \<Rightarrow> Inl e
                | Inr gate_acts \<Rightarrow> Inr (vm', ctl', acts @ gate_acts))))"

section \<open>The simulation engine (\<open>simulation/engine.py\<close>)\<close>

text \<open>
  The configuration's device counts are \<open>cfg_num_gates\<close>, \<open>cfg_num_spots\<close> and
  \<open>cfg_num_chargers\<close> (the controller's fields have the plain names).
\<close>

record SimulationConfig =
  cfg_num_gates :: int
  cfg_num_spots :: int
  cfg_num_chargers :: int
  max_steps :: int
  vehicle_arrival_rate :: real
  charger_failure_step :: "int option"
  gate_failure_step :: "int option"
  noise_level :: real

datatype FaultType = CHARGER_FAILURE | GATE_STUCK | SENSOR_NOISE | OCCUPANCY_CONFLICT | SYSTEM_ERROR

datatype AlertLevel = INFO | WARNING | CRITICAL

text \<open>A \<open>FaultEvent\<close> without its uuid, its step id and its description text.\<close>

record FaultEvent =
  fault_type :: FaultType
  alert_level :: AlertLevel
  affected_component :: string
  detected_at :: int

text \<open>
  The engine's state. The database is an external sink; of what is written to it the
  model keeps the control actions (\<open>db_control_actions\<close>, the rows that
  \<open>insert_control_action\<close> receives), the faults are kept by the engine itself.
\<close>

record SimulationEngine =
  config :: SimulationConfig
  sensor_network :: SensorNetwork
  vehicle_manager :: VehicleManager
  engine_controller :: DepotController
  current_step :: int
  faults_detected :: "FaultEvent list"
  db_control_actions :: "ControlAction list"

definition SimulationEngine_init :: "SimulationConfig \<Rightarrow> SimulationEngine" where
  "SimulationEngine_init cfg =
     \<lparr>config = cfg,
      sensor_network = SensorNetwork_init (cfg_num_gates cfg) (cfg_num_spots cfg) (cfg_num_chargers cfg),
      vehicle_manager = VehicleManager_init,
      engine_controller = DepotController_init (cfg_num_gates cfg) (cfg_num_spots cfg) (cfg_num_chargers cfg),
      current_step = 0,
      faults_detected = [],
      db_control_actions = []\<rparr>"

text \<open>What one \<open>run_step\<close> draws: the arrival number, the new vehicle's id, the sensors' numbers.\<close>

record StepInput =
  arrival_draw :: real
  new_vehicle_id :: string
  sensor_draws :: SensorDraws

record StepResult =
  res_step :: int
  res_vehicles :: nat
  res_sensor_readings :: nat
  res_control_actions :: nat
  res_faults :: nat

definition generate_vehicles :: "real \<Rightarrow> string \<Rightarrow> SimulationEngine \<Rightarrow> SimulationEngine" where
  "generate_vehicles draw new_id e =
     (if draw < vehicle_arrival_rate (config e)
      then e\<lparr>vehicle_manager := add_vehicle (create_new new_id (current_step e)) (vehicle_manager e)\<rparr>
      else e)"

text \<open>\<open>if self.config.charger_failure_step and ...\<close>: \<open>None\<close> and \<open>0\<close> are falsy.\<close>

definition failure_due :: "int option \<Rightarrow> int \<Rightarrow> bool" where
  "failure_due failure_step now =
     (case failure_step of None \<Rightarrow> False | Some n \<Rightarrow> n \<noteq> 0 \<and> now = n)"

definition inject_failures :: "SimulationEngine \<Rightarrow> error + SimulationEngine" where
  "inject_failures e =
     (case (if failure_due (charger_failure_step (config e)) (current_step e) then
              (case map_of (chargers (sensor_network e)) 0 of
                 None \<Rightarrow> Inl KeyError
               | Some c \<Rightarrow>
                   Inr ((sensor_network e)\<lparr>chargers :=
                          AList.update 0 (c\<lparr>charger_is_failed := True\<rparr>)
                            (chargers (sensor_network e))\<rparr>))
            else Inr (sensor_network e)) of
        Inl x \<Rightarrow> Inl x
      | Inr net \<Rightarrow>
          if failure_due (gate_failure_step (config e)) (current_step e) then
            (case map_of (gates net) 0 of
               None \<Rightarrow> Inl KeyError
             | Some g \<Rightarrow>
                 Inr (e\<lparr>sensor_network :=
                          net\<lparr>gates := AList.update 0 (g\<lparr>gate_is_failed := True\<rparr>) (gates net)\<rparr>\<rparr>))
          else Inr (e\<lparr>sensor_network := net\<rparr>))"

definition classify_fault_type :: "SensorReading \<Rightarrow> FaultType" where
  "classify_fault_type reading =
     (if sensor_type reading = CHARGER then CHARGER_FAILURE
      else if sensor_type reading = GATE then GATE_STUCK
      else SENSOR_NOISE)"

definition detect_faults ::
  "(string \<times> SensorReading) list \<Rightarrow> VehicleManager \<Rightarrow> int \<Rightarrow> FaultEvent list" where
  "detect_faults sensor_readings vm now =
     map (\<lambda>reading. \<lparr>fault_type = classify_fault_type reading, alert_level = WARNING,
                      affected_component = sensor_name reading, detected_at = now\<rparr>)
         (filter is_fault (map snd sensor_readings))
     @ map (\<lambda>(s, vehicle_ids). \<lparr>fault_type = OCCUPANCY_CONFLICT, alert_level = CRITICAL,
                                  affected_component = ''spot_'' @ str_int s, detected_at = now\<rparr>)
           (detect_occupancy_conflicts vm)"

definition run_step :: "StepInput \<Rightarrow> SimulationEngine \<Rightarrow> error + (StepResult \<times> SimulationEngine)" where
  "run_step inp e0 =
     (case inject_failures (e0\<lparr>current_step := current_step e0 + 1\<rparr>) of
        Inl x \<Rightarrow> Inl x
      | Inr e1 \<Rightarrow>
          let e2 = generate_vehicles (arrival_draw inp) (new_vehicle_id inp) e1 in
          (case read_all_sensors (sensor_draws inp) (sensor_network e2) of
             (sensor_readings, net) \<Rightarrow>
               (case process_step sensor_readings (update_all_vehicles (vehicle_manager e2))
                       (engine_controller e2) (current_step e2) of
                  Inl x \<Rightarrow> Inl x
                | Inr (vm, ctl, control_actions) \<Rightarrow>
                    let faults = detect_faults sensor_readings vm (current_step e2) in
                    Inr (\<lparr>res_step = current_step e2,
                          res_vehicles = length (vehicles vm),
                          res_sensor_readings = length sensor_readings,
                          res_control_actions = length control_actions,
                          res_faults = length faults\<rparr>,
                         e2\<lparr>sensor_network := net, vehicle_manager := vm,
                            engine_controller := ctl,
                            faults_detected := faults_detected e2 @ faults,
                            db_control_actions := db_control_actions e2 @ control_actions\<rparr>))))"

text \<open>
  The loop of \<open>run_complete_simulation\<close>: \<open>n\<close> passes of \<open>range(max_steps)\<close> are
  left, pass number \<open>i\<close> is next and draws \<open>inputs i\<close>.
\<close>

fun run_loop ::
  "nat \<Rightarrow> (nat \<Rightarrow> StepInput) \<Rightarrow> nat \<Rightarrow> SimulationEngine \<Rightarrow> StepResult list \<Rightarrow>
   error + (StepResult list \<times> SimulationEngine)" where
  "run_loop 0 inputs i e results = Inr (results, e)"
| "run_loop (Suc n) inputs i e results =
     (case run_step (inputs i) e of
        Inl x \<Rightarrow> Inl x
      | Inr (step_result, e') \<Rightarrow>
          if length (faults_detected e') > 10 then Inr (results @ [step_result], e')
          else run_loop n inputs (Suc i) e' (results @ [step_result]))"

record RunResult =
  total_steps :: int
  total_faults :: nat
  step_results :: "StepResult list"

definition run_complete_simulation ::
  "(nat \<Rightarrow> StepInput) \<Rightarrow> SimulationEngine \<Rightarrow> error + (RunResult \<times> SimulationEngine)" where
  "run_complete_simulation inputs e =
     (case run_loop (nat (max_steps (config e))) inputs 0 e [] of
        Inl x \<Rightarrow> Inl x
      | Inr (results, e') \<Rightarrow>
          Inr (\<lparr>total_steps = current_step e', total_faults = length (faults_detected e'),
                step_results = results\<rparr>, e'))"

text \<open>\<open>n\<close> calls of \<open>run_step\<close> in a row, call \<open>i\<close> drawing \<open>inputs i\<close>.\<close>

fun run_steps :: "nat \<Rightarrow> (nat \<Rightarrow> StepInput) \<Rightarrow> SimulationEngine \<Rightarrow> error + SimulationEngine" where
  "run_steps 0 inputs e = Inr e"
| "run_steps (Suc n) inputs e =
     (case run_steps n inputs e of
        Inl x \<Rightarrow> Inl x
      | Inr e' \<Rightarrow> (case run_step (inputs n) e' of Inl x \<Rightarrow> Inl x | Inr (r, e'') \<Rightarrow> Inr e''))"

section \<open>Well-formed states\<close>

text \<open>
  What the constructors establish and every step keeps. The controller's three dicts
  have an entry for every device id of \<open>range(num_...)\<close>, so the indexing in
  \<open>_assign_parking_spot\<close>, \<open>_assign_charger\<close> and \<open>_control_gates\<close> finds its key.
\<close>

definition controller_keys :: "DepotController \<Rightarrow> bool" where
  "controller_keys ctl \<longleftrightarrow>
     (\<forall>g \<in> set (range_py (num_gates ctl)). map_of (gate_states (depot_state ctl)) g \<noteq> None) \<and>
     (\<forall>s \<in> set (range_py (num_spots ctl)). map_of (spot_occupancy (depot_state ctl)) s \<noteq> None) \<and>
     (\<forall>c \<in> set (range_py (num_chargers ctl)). map_of (charger_status (depot_state ctl)) c \<noteq> None)"

text \<open>
  Every charger that a vehicle holds has a status entry, so \<open>_free_vehicle_resources\<close>
  finds it.
\<close>

definition charger_ok :: "DepotState \<Rightarrow> Vehicle \<Rightarrow> bool" where
  "charger_ok ds v \<longleftrightarrow>
     (case assigned_charger v of None \<Rightarrow> True | Some c \<Rightarrow> map_of (charger_status ds) c \<noteq> None)"

definition chargers_known :: "VehicleManager \<Rightarrow> DepotState \<Rightarrow> bool" where
  "chargers_known vm ds \<longleftrightarrow> (\<forall>v \<in> set (map snd (vehicles vm)). charger_ok ds v)"

text \<open>
  The names of a readings dict that \<open>_update_depot_state\<close> can take in: a name with one
  of the three prefixes has an integer after its first underscore.
\<close>

definition known_prefix :: "string \<Rightarrow> bool" where
  "known_prefix name \<longleftrightarrow>
     startswith name ''gate_'' \<or> startswith name ''spot_'' \<or> startswith name ''charger_''"

definition names_parse :: "(string \<times> SensorReading) list \<Rightarrow> bool" where
  "names_parse sensor_readings \<longleftrightarrow>
     (\<forall>name \<in> set (map fst sensor_readings). known_prefix name \<longrightarrow> \<not> isl (sensor_index name))"

text \<open>
  Names short enough for CPython's limit on the number of digits that \<open>int\<close> converts
  never to apply.
\<close>

definition names_short :: "(string \<times> SensorReading) list \<Rightarrow> bool" where
  "names_short sensor_readings \<longleftrightarrow> list_all (\<lambda>name. length name \<le> 640) (map fst sensor_readings)"

text \<open>
  A scenario can fail charger 0 or gate 0 only if the device exists; with no such device
  \<open>_inject_failures\<close> raises \<open>KeyError\<close> when the failure step comes.
\<close>

definition failure_targets_exist :: "SimulationEngine \<Rightarrow> bool" where
  "failure_targets_exist e \<longleftrightarrow>
     ((\<exists>n. charger_failure_step (config e) = Some n \<and> n \<noteq> 0) \<longrightarrow>
        map_of (chargers (sensor_network e)) 0 \<noteq> None) \<and>
     ((\<exists>n. gate_failure_step (config e) = Some n \<and> n \<noteq> 0) \<longrightarrow>
        map_of (gates (sensor_network e)) 0 \<noteq> None)"

definition engine_wf :: "SimulationEngine \<Rightarrow> bool" where
  "engine_wf e \<longleftrightarrow>
     controller_keys (engine_controller e) \<and>
     chargers_known (vehicle_manager e) (depot_state (engine_controller e)) \<and>
     failure_targets_exist e"

definition config_ok :: "SimulationConfig \<Rightarrow> bool" where
  "config_ok cfg \<longleftrightarrow>
     ((\<exists>n. charger_failure_step cfg = Some n \<and> n \<noteq> 0) \<longrightarrow> 0 < cfg_num_chargers cfg) \<and>
     ((\<exists>n. gate_failure_step cfg = Some n \<and> n \<noteq> 0) \<longrightarrow> 0 < cfg_num_gates cfg)"

text \<open>The fields of the registered vehicles that the controller never writes.\<close>

definition fproj :: "Vehicle \<Rightarrow> string \<times> real \<times> real \<times> int" where
  "fproj v = (vehicle_id v, charge_level v, target_charge v, arrival_time v)"

definition frame :: "VehicleManager \<Rightarrow> (string \<times> string \<times> real \<times> real \<times> int) list" where
  "frame vm = map (\<lambda>(k, v). (k, fproj v)) (vehicles vm)"

text \<open>
  What processing the vehicles may do to the controller: the device counts and the gate
  and spot views stay, charger status entries are rewritten but none is removed.
\<close>

definition ctl_extends :: "DepotController \<Rightarrow> DepotController \<Rightarrow> bool" where
  "ctl_extends ctl ctl' \<longleftrightarrow>
     num_gates ctl' = num_gates ctl \<and> num_spots ctl' = num_spots ctl \<and>
     num_chargers ctl' = num_chargers ctl \<and>
     gate_states (depot_state ctl') = gate_states (depot_state ctl) \<and>
     spot_occupancy (depot_state ctl') = spot_occupancy (depot_state ctl) \<and>
     dom (map_of (charger_status (depot_state ctl))) \<subseteq>
       dom (map_of (charger_status (depot_state ctl')))"

text \<open>
  No gate sensor is open and the controller has no gate recorded as open. Nothing in
  the source calls \<open>set_state\<close>, so this is the state of the gates in every run.
\<close>

definition gates_closed :: "SimulationEngine \<Rightarrow> bool" where
  "gates_closed e \<longleftrightarrow>
     (\<forall>g \<in> set (map snd (gates (sensor_network e))). \<not> is_open g) \<and>
     (\<forall>v \<in> set (map snd (gate_states (depot_state (engine_controller e)))). \<not> truthy v)"

text \<open>Every registered vehicle has its charge level between 0 and 1.\<close>

definition charges_in_range :: "VehicleManager \<Rightarrow> bool" where
  "charges_in_range vm \<longleftrightarrow>
     (\<forall>v \<in> set (map snd (vehicles vm)). 0 \<le> charge_level v \<and> charge_level v \<le> 1)"

section \<open>Sensor operations\<close>

text \<open>
  Everything the source can do to a gate sensor: its methods \<open>read\<close> and \<open>set_state\<close>,
  and the assignment \<open>is_failed = True\<close> that \<open>inject_fault\<close> and the engine's
  \<open>_inject_failures\<close> perform. Likewise for a charger sensor.
\<close>

datatype gate_op = GateRead real | GateSetState bool | GateInjectFault

fun gate_apply :: "GateSensor \<Rightarrow> gate_op \<Rightarrow> GateSensor" where
  "gate_apply g (GateRead draw) = snd (gate_read draw g)"
| "gate_apply g (GateSetState b) = set_state b g"
| "gate_apply g GateInjectFault = g\<lparr>gate_is_failed := True\<rparr>"

datatype charger_op =
  ChargerRead real | ConnectVehicle | DisconnectVehicle | StartCharging real | StopCharging
  | ChargerInjectFault

fun charger_apply :: "ChargerSensor \<Rightarrow> charger_op \<Rightarrow> ChargerSensor" where
  "charger_apply c (ChargerRead draw) = snd (charger_read draw c)"
| "charger_apply c ConnectVehicle = connect_vehicle c"
| "charger_apply c DisconnectVehicle = disconnect_vehicle c"
| "charger_apply c (StartCharging power_kw) = start_charging power_kw c"
| "charger_apply c StopCharging = stop_charging c"
| "charger_apply c ChargerInjectFault = c\<lparr>charger_is_failed := True\<rparr>"

text \<open>The failed flag of the gate, or charger, stored under an id of the network.\<close>

definition gate_failed :: "SensorNetwork \<Rightarrow> int \<Rightarrow> bool" where
  "gate_failed net i = (case map_of (gates net) i of None \<Rightarrow> False | Some g \<Rightarrow> gate_is_failed g)"

definition charger_failed :: "SensorNetwork \<Rightarrow> int \<Rightarrow> bool" where
  "charger_failed net i =
     (case map_of (chargers net) i of None \<Rightarrow> False | Some c \<Rightarrow> charger_is_failed c)"

section \<open>Concrete states and runs\<close>

text \<open>A registry with two vehicles: \<open>a\<close> holds spot 0, \<open>b\<close> has just arrived.\<close>

definition vm_ex :: VehicleManager where
  "vm_ex = \<lparr>vehicles = [(''a'', (create_new ''a'' 1)\<lparr>assigned_spot := Some 0\<rparr>),
                        (''b'', create_new ''b'' 2)],
            vehicle_positions = [(0, Some ''a'')]\<rparr>"

text \<open>Sensor draws under which no sensor fails and no occupancy reading is noisy.\<close>

definition quiet :: SensorDraws where
  "quiet = \<lparr>gate_draws = (\<lambda>_. 0.5), spot_draws = (\<lambda>_. 0.5), charger_draws = (\<lambda>_. 0.5)\<rparr>"

text \<open>
  Vehicle \<open>a\<close> arrives in the first step and \<open>b\<close> in the second, nobody after them.
\<close>

definition two_arrivals :: "nat \<Rightarrow> StepInput" where
  "two_arrivals i =
     (if i = 0 then \<lparr>arrival_draw = 0.1, new_vehicle_id = ''a'', sensor_draws = quiet\<rparr>
      else if i = 1 then \<lparr>arrival_draw = 0.1, new_vehicle_id = ''b'', sensor_draws = quiet\<rparr>
      else \<lparr>arrival_draw = 0.9, new_vehicle_id = ''c'', sensor_draws = quiet\<rparr>)"

definition cfg_two_spots :: SimulationConfig where
  "cfg_two_spots =
     \<lparr>cfg_num_gates = 1, cfg_num_spots = 2, cfg_num_chargers = 1, max_steps = 4,
      vehicle_arrival_rate = 0.3, charger_failure_step = None, gate_failure_step = None,
      noise_level = 0.05\<rparr>"

definition cfg_one_spot :: SimulationConfig where
  "cfg_one_spot =
     \<lparr>cfg_num_gates = 1, cfg_num_spots = 1, cfg_num_chargers = 1, max_steps = 20,
      vehicle_arrival_rate = 0.3, charger_failure_step = None, gate_failure_step = None,
      noise_level = 0.05\<rparr>"

definition cfg_charger_fails :: SimulationConfig where
  "cfg_charger_fails =
     \<lparr>cfg_num_gates = 1, cfg_num_spots = 1, cfg_num_chargers = 1, max_steps = 20,
      vehicle_arrival_rate = 0.3, charger_failure_step = Some 1, gate_failure_step = None,
      noise_level = 0.05\<rparr>"

text \<open>What a run shows of its vehicles: id, state and charger of each, in registry order.\<close>

definition vehicle_view :: "SimulationEngine \<Rightarrow> (string \<times> VehicleState \<times> int option) list" where
  "vehicle_view e = map (\<lambda>(k, v). (k, state v, assigned_charger v)) (vehicles (vehicle_manager e))"

text \<open>A controller for two gates, one spot and one charger that has seen gate 1 open.\<close>

definition ctl_ex :: DepotController where
  "ctl_ex = (DepotController_init 2 1 1)
     \<lparr>depot_state := (depot_state (DepotController_init 2 1 1))
        \<lparr>gate_states := [(0, VBool False), (1, VBool True)]\<rparr>\<rparr>"

text \<open>A network of one gate, one spot and one charger whose gate and charger have failed.\<close>

definition net_failed_ex :: SensorNetwork where
  "net_failed_ex =
     \<lparr>gates = [(0, gate_apply (GateSensor_init 0) GateInjectFault)],
      occupancy_sensors = [(0, OccupancySensor_init 0)],
      chargers = [(0, charger_apply (ChargerSensor_init 0) ChargerInjectFault)]\<rparr>"

definition engine_failed_ex :: SimulationEngine where
  "engine_failed_ex = (SimulationEngine_init cfg_one_spot)\<lparr>sensor_network := net_failed_ex\<rparr>"

text \<open>
  Readings dicts: one with a gate reading and an entry of unknown prefix, one whose
  only entry has the prefix \<open>gate_\<close> and no number after it.
\<close>

definition gate_reading_ex :: "string \<Rightarrow> bool \<Rightarrow> SensorReading" where
  "gate_reading_ex name b =
     \<lparr>sensor_name = name, sensor_type = GATE, reading_value = VBool b, is_fault = False,
      reading_noise_level = 0\<rparr>"

definition readings_ok_ex :: "(string \<times> SensorReading) list" where
  "readings_ok_ex = [(''gate_0'', gate_reading_ex ''gate_0'' True),
                     (''door_x'', gate_reading_ex ''door_x'' True)]"

text \<open>
  A readings dict whose gate name has a no-break space (U+00A0) before its number, and
  one whose gate name has the separator U+001F there.
\<close>

definition readings_nbsp_ex :: "(string \<times> SensorReading) list" where
  "readings_nbsp_ex = [(''gate_'' @ [CHR 0xA0] @ ''1'', gate_reading_ex ''gate_1'' True)]"

definition readings_us_ex :: "(string \<times> SensorReading) list" where
  "readings_us_ex = [(''gate_'' @ [CHR 0x1F] @ ''1'', gate_reading_ex ''gate_1'' True)]"

definition readings_bad_ex :: "(string \<times> SensorReading) list" where
  "readings_bad_ex = [(''gate_abc'', gate_reading_ex ''gate_abc'' True)]"

text \<open>
  Six gates whose sensors all fail at their first read: six \<open>gate_stuck\<close> faults per
  step, so the fault count passes 10 at the end of the second step.
\<close>

definition cfg_six_gates :: SimulationConfig where
  "cfg_six_gates =
     \<lparr>cfg_num_gates = 6, cfg_num_spots = 1, cfg_num_chargers = 1, max_steps = 5,
      vehicle_arrival_rate = 0.3, charger_failure_step = None, gate_failure_step = None,
      noise_level = 0.05\<rparr>"

definition failing_gates :: "nat \<Rightarrow> StepInput" where
  "failing_gates i =
     \<lparr>arrival_draw = 0.9, new_vehicle_id = ''c'',
      sensor_draws = \<lparr>gate_draws = (\<lambda>_. 0), spot_draws = (\<lambda>_. 0.5), charger_draws = (\<lambda>_. 0.5)\<rparr>\<rparr>"

text \<open>A configuration in which no vehicle ever arrives, and draws as \<open>random.random()\<close> gives them.\<close>

definition cfg_no_arrivals :: SimulationConfig where
  "cfg_no_arrivals =
     \<lparr>cfg_num_gates = 2, cfg_num_spots = 2, cfg_num_chargers = 1, max_steps = 5,
      vehicle_arrival_rate = 0, charger_failure_step = Some 2, gate_failure_step = None,
      noise_level = 0.05\<rparr>"

definition zero_draws :: "nat \<Rightarrow> StepInput" where
  "zero_draws i =
     \<lparr>arrival_draw = 0, new_vehicle_id = ''c'',
      sensor_draws = \<lparr>gate_draws = (\<lambda>_. 0), spot_draws = (\<lambda>_. 0), charger_draws = (\<lambda>_. 0)\<rparr>\<rparr>"

section \<open>Strings: \<open>int(str(i)) = i\<close> and the sensor names\<close>

lemma digit_char_cases:
  assumes "d < 10"
  shows "d = 0 \<or> d = 1 \<or> d = 2 \<or> d = 3 \<or> d = 4 \<or> d = 5 \<or> d = 6 \<or> d = 7 \<or> d = 8 \<or> d = (9::nat)"
  using assms by arith

lemma digit_char_props:
  assumes "d < 10"
  shows "is_digit (digit_char d)" and "digit_val (digit_char d) = d"
  using digit_char_cases [OF assms]
  by (auto simp: is_digit_def digit_char_def digit_val_def)

lemma is_digit_plain:
  assumes "is_digit c"
  shows "\<not> is_space c" and "c \<noteq> CHR ''_''" and "c \<noteq> CHR ''-''" and "c \<noteq> CHR ''+''"
  using assms by (auto simp: is_digit_def is_space_def)

lemma str_nat_digits: "str_nat n \<noteq> [] \<and> list_all is_digit (str_nat n)"
proof (induction n rule: str_nat.induct)
  case (1 n)
  show ?case
  proof (cases "n < 10")
    case True
    then show ?thesis by (subst (1 2) str_nat.simps) (simp add: digit_char_props)
  next
    case False
    with 1 show ?thesis by (subst (1 2) str_nat.simps) (simp add: digit_char_props)
  qed
qed

lemma str_nat_value: "foldl (\<lambda>acc c. 10 * acc + digit_val c) 0 (str_nat n) = n"
proof (induction n rule: str_nat.induct)
  case (1 n)
  show ?case
  proof (cases "n < 10")
    case True
    then show ?thesis by (subst str_nat.simps) (simp add: digit_char_props)
  next
    case False
    with 1 show ?thesis by (subst str_nat.simps) (simp add: digit_char_props)
  qed
qed

lemma digits_val_str_nat: "digits_val (str_nat n) = Some n"
  using str_nat_digits [of n] by (simp add: digits_val_def str_nat_value)

lemma digits_no_space: "list_all is_digit s \<Longrightarrow> c \<in> set s \<Longrightarrow> \<not> is_space c"
  by (simp add: list_all_iff is_digit_plain)

lemma minus_no_space: "\<not> is_space CHR ''-''"
  by (simp add: is_space_def)

lemma strip_digits:
  assumes "s \<noteq> []" and "list_all is_digit s" and that: "p = [] \<or> p = ''-''"
  shows "strip (p @ s) = p @ s"
proof -
  have l: "\<not> is_space (last (p @ s))" using assms by (simp add: digits_no_space)
  have "\<not> is_space (hd s)" using assms by (simp add: digits_no_space)
  then have h: "\<not> is_space (hd (p @ s))" using assms(1) that minus_no_space by auto
  have ne: "p @ s \<noteq> []" using assms by simp
  from h ne have 1: "dropWhile is_space (p @ s) = p @ s" by (cases "p @ s") auto
  have "\<not> is_space (hd (rev (p @ s)))" unfolding hd_rev by (rule l)
  with ne have 2: "dropWhile is_space (rev (p @ s)) = rev (p @ s)"
    by (cases "rev (p @ s)") auto
  show ?thesis unfolding strip_def 1 2 by simp
qed

lemma py_int_str_int: "py_int (str_int i) = Inr i"
proof (cases "i < 0")
  case True
  have "strip (''-'' @ str_nat (nat (- i))) = ''-'' @ str_nat (nat (- i))"
    using str_nat_digits [of "nat (- i)"] by (intro strip_digits) auto
  with True show ?thesis by (simp add: py_int_def str_int_def digits_val_str_nat)
next
  case False
  obtain c r where cr: "str_nat (nat i) = c # r" using str_nat_digits [of "nat i"] by (cases "str_nat (nat i)") auto
  have "strip ([] @ str_nat (nat i)) = [] @ str_nat (nat i)"
    using str_nat_digits [of "nat i"] by (intro strip_digits) auto
  moreover have "c \<noteq> CHR ''-''" "c \<noteq> CHR ''+''"
    using str_nat_digits [of "nat i"] cr by (auto simp: is_digit_plain)
  ultimately show ?thesis using False cr digits_val_str_nat [of "nat i"]
    by (simp add: py_int_def str_int_def)
qed

lemma split_py_no_sep: "c \<notin> set s \<Longrightarrow> split_py c s = [s]"
  by (induction s) auto

lemma str_int_no_underscore: "CHR ''_'' \<notin> set (str_int i)"
proof -
  have "CHR ''_'' \<notin> set (str_nat n)" for n
    using str_nat_digits [of n] is_digit_plain(2) by (auto simp: list_all_iff)
  then show ?thesis by (simp add: str_int_def)
qed

lemma sensor_index_names:
  "sensor_index (''gate_'' @ str_int i) = Inr i"
  "sensor_index (''spot_'' @ str_int i) = Inr i"
  "sensor_index (''charger_'' @ str_int i) = Inr i"
  by (simp_all add: sensor_index_def split_py_no_sep [OF str_int_no_underscore] py_int_str_int)

lemma str_int_inj: "str_int i = str_int j \<Longrightarrow> i = j"
proof -
  assume "str_int i = str_int j"
  then have "py_int (str_int i) = py_int (str_int j)" by (rule arg_cong)
  then show "i = j" unfolding py_int_str_int by (rule sum.inject(2) [THEN iffD1])
qed

text \<open>
  \<open>int\<close> at the edges of its whitespace: a no-break space or a next-line character is
  skipped, a unit separator is not, and a blank after the sign is refused.
\<close>

lemma py_int_examples:
  "py_int ([CHR 0xA0] @ ''1'') = Inr 1"
  "py_int ([CHR 0x85] @ ''-12'' @ [CHR 0x09]) = Inr (- 12)"
  "py_int ([CHR 0x1F] @ ''1'') = Inl ValueError"
  "py_int ''- 1'' = Inl ValueError"
  "py_int ''007'' = Inr 7"
  by code_simp+

section \<open>Spot assignment in the registry\<close>

text \<open>
  Claim C10. \<open>VehicleManager.assign_spot(vehicle_id, spot_id)\<close> returns \<open>False\<close> and
  leaves the vehicles map and the positions map as they were whenever the spot is
  occupied by some vehicle or the vehicle id is not registered. When it returns \<open>True\<close>
  the vehicle is registered, its previous spot (if any) has been set to \<open>None\<close> in the
  positions map and then \<open>spot_id\<close> has been set to the vehicle id: the spot maps to
  the vehicle, a previous spot other than \<open>spot_id\<close> is free, and the vehicle's
  \<open>assigned_spot\<close> is \<open>spot_id\<close>.
\<close>

theorem assign_spot_contract:
  "(spot_occupied vm s \<or> map_of (vehicles vm) vid = None \<longrightarrow> assign_spot vid s vm = (False, vm)) \<and>
   (\<forall>vm'. assign_spot vid s vm = (True, vm') \<longrightarrow>
      (\<exists>vehicle. map_of (vehicles vm) vid = Some vehicle \<and>
         vehicle_positions vm' =
           AList.update s (Some vid)
             (case assigned_spot vehicle of
                None \<Rightarrow> vehicle_positions vm
              | Some old \<Rightarrow> AList.update old None (vehicle_positions vm)) \<and>
         map_of (vehicle_positions vm') s = Some (Some vid) \<and>
         (\<forall>old. assigned_spot vehicle = Some old \<and> old \<noteq> s \<longrightarrow>
            map_of (vehicle_positions vm') old = Some None) \<and>
         map_of (vehicles vm') vid = Some (vehicle\<lparr>assigned_spot := Some s\<rparr>)))"
  by (auto simp: assign_spot_def Let_def update_conv' split: option.splits)

theorem assign_spot_contract_witness:
  "spot_occupied vm_ex 0 \<and> assign_spot ''b'' 0 vm_ex = (False, vm_ex) \<and>
   map_of (vehicles vm_ex) ''zz'' = None \<and> assign_spot ''zz'' 1 vm_ex = (False, vm_ex) \<and>
   fst (assign_spot ''a'' 1 vm_ex) \<and>
   vehicle_positions (snd (assign_spot ''a'' 1 vm_ex)) = [(0, None), (1, Some ''a'')]"
  using assign_spot_contract [of vm_ex 0 "''b''"] assign_spot_contract [of vm_ex 1 "''zz''"]
    assign_spot_contract [of vm_ex 1 "''a''"]
  by (simp add: vm_ex_def assign_spot_def spot_occupied_def create_new_def)

section \<open>The vehicle state machine as the controller runs it\<close>

text \<open>
  \<open>_process_vehicle\<close> has no branch for a WAITING vehicle: processing one changes
  neither the registry nor the controller and emits nothing.
\<close>

lemma process_vehicle_waiting:
  assumes "map_of (vehicles vm) k = Some v" and "state v = WAITING"
  shows "process_vehicle k vm ctl now = Inr (vm, ctl, [])"
  using assms by (simp add: process_vehicle_def)

text \<open>
  An APPROACHING vehicle is left as it is when \<open>_can_admit_vehicle\<close> says no.
\<close>

lemma process_vehicle_approaching_no_capacity:
  assumes "map_of (vehicles vm) k = Some v" and "state v = APPROACHING"
    and "\<not> can_admit_vehicle (depot_state ctl)"
  shows "process_vehicle k vm ctl now = Inr (vm, ctl, [])"
  using assms by (simp add: process_vehicle_def)

text \<open>
  Giving a PARKING vehicle a charger writes the vehicle only: the controller, and with
  it the charger's recorded status, is returned as it was, so the next PARKING vehicle
  of the same step is offered the same charger.
\<close>

lemma process_vehicle_parking:
  assumes "map_of (vehicles vm) k = Some v" and "state v = PARKING"
    and "assign_charger ctl = Inr (Some c)"
  shows "process_vehicle k vm ctl now =
     Inr (set_vehicle k (\<lambda>v. v\<lparr>assigned_charger := Some c, state := CHARGING\<rparr>) vm, ctl,
          [create_action ''depot_controller'' ''charger_assignment''
             (''charger_'' @ str_int c) ''start_charging'' now])"
  using assms by (simp add: process_vehicle_def)

text \<open>
  Claim C1, at a run of the engine. One gate, two spots, one charger, no sensor fails.
  Vehicle \<open>a\<close> arrives in step 1 and \<open>b\<close> in step 2. In step 3 \<open>a\<close> is given charger 0;
  in step 4 \<open>b\<close> is given charger 0 as well, while \<open>a\<close> is still CHARGING on it: nothing
  has freed the charger in between, and the two hold it together.
\<close>

theorem charger_assigned_twice:
  "(case run_steps 3 two_arrivals (SimulationEngine_init cfg_two_spots) of
      Inl x \<Rightarrow> False
    | Inr e \<Rightarrow> vehicle_view e = [(''a'', CHARGING, Some 0), (''b'', PARKING, None)]) \<and>
   (case run_steps 4 two_arrivals (SimulationEngine_init cfg_two_spots) of
      Inl x \<Rightarrow> False
    | Inr e \<Rightarrow> vehicle_view e = [(''a'', CHARGING, Some 0), (''b'', CHARGING, Some 0)])"
  by code_simp

text \<open>
  Claim C2, at a run of the engine. One gate, one spot, one charger, no sensor fails.
  Vehicle \<open>a\<close> takes the only spot in step 1; \<open>b\<close> arrives in step 2, finds no spot and
  becomes WAITING. After step 18 \<open>a\<close> has departed, the spot is free in the registry and
  the controller's own admission check succeeds, yet step 19 leaves \<open>b\<close> WAITING.
\<close>

theorem waiting_vehicle_not_admitted:
  "(case run_steps 18 two_arrivals (SimulationEngine_init cfg_one_spot) of
      Inl x \<Rightarrow> False
    | Inr e \<Rightarrow>
        vehicle_view e = [(''a'', DEPARTED, Some 0), (''b'', WAITING, None)] \<and>
        can_admit_vehicle (depot_state (engine_controller e)) \<and>
        vehicle_positions (vehicle_manager e) = [(0, None)]) \<and>
   (case run_steps 19 two_arrivals (SimulationEngine_init cfg_one_spot) of
      Inl x \<Rightarrow> False
    | Inr e \<Rightarrow> vehicle_view e = [(''a'', DEPARTED, Some 0), (''b'', WAITING, None)])"
  by code_simp

text \<open>
  Claim C3, at a run of the engine. One charger, which the scenario fails in step 1.
  Vehicle \<open>a\<close> arrives in step 1; the controller's admission check fails (no charger
  that is not failed), and after the step \<open>a\<close> is still APPROACHING, not WAITING.
\<close>

theorem approaching_vehicle_not_waiting:
  "(case run_steps 1 two_arrivals (SimulationEngine_init cfg_charger_fails) of
      Inl x \<Rightarrow> False
    | Inr e \<Rightarrow>
        \<not> can_admit_vehicle (depot_state (engine_controller e)) \<and>
        vehicle_view e = [(''a'', APPROACHING, None)])"
  by code_simp

section \<open>Gate control\<close>

lemma can_admit_vehicle_iff:
  "can_admit_vehicle ds \<longleftrightarrow>
     (\<exists>occupied \<in> set (map snd (spot_occupancy ds)). \<not> truthy occupied) \<and>
     (\<exists>status \<in> set (map snd (charger_status ds)).
        \<not> truthy (dict_get status ''failed'' (VBool False)))"
proof -
  have pos: "0 < length (filter P xs) \<longleftrightarrow> (\<exists>x \<in> set xs. P x)" for P :: "'a \<Rightarrow> bool" and xs
    by (simp add: filter_empty_conv)
  show ?thesis by (simp only: can_admit_vehicle_def Let_def pos)
qed

lemma should_open_gate_iff:
  "should_open_gate vm ctl \<longleftrightarrow>
     (\<exists>v \<in> set (map snd (vehicles vm)). state v = WAITING \<or> state v = APPROACHING) \<and>
     can_admit_vehicle (depot_state ctl)"
  by (auto simp: should_open_gate_def get_vehicles_by_state_def filter_empty_conv)

lemma control_gates_loop_ok:
  assumes "\<forall>g \<in> set gs. map_of (gate_states ds) g \<noteq> None"
  shows "control_gates_loop gs so ds now =
           Inr (concat (map (\<lambda>g. gate_action so (the (map_of (gate_states ds) g)) g now) gs))"
  using assms by (induction gs) auto

lemma gate_action_target: "a \<in> set (gate_action so cur g now) \<Longrightarrow> target a = ''gate_'' @ str_int g \<and> action_type a = ''gate_control''"
  by (auto simp: gate_action_def create_action_def split: if_splits)

lemma gate_action_cases:
  "gate_action so cur g now =
     (if truthy cur \<noteq> so
      then [create_action ''depot_controller'' ''gate_control'' (''gate_'' @ str_int g)
              (if so then ''open'' else ''close'') now]
      else [])"
  by (auto simp: gate_action_def)

lemma filter_gate_actions:
  assumes "distinct gs" and "g \<in> set gs"
  shows "filter (\<lambda>a. target a = ''gate_'' @ str_int g)
           (concat (map (\<lambda>h. gate_action so (cur h) h now) gs)) = gate_action so (cur g) g now"
  using assms
proof (induction gs)
  case Nil
  then show ?case by simp
next
  case (Cons h gs)
  have other: "filter (\<lambda>a. target a = ''gate_'' @ str_int g) (gate_action so (cur h') h' now) = []"
    if "h' \<noteq> g" for h'
    using that by (auto simp: filter_empty_conv dest!: gate_action_target dest: str_int_inj)
  have same: "filter (\<lambda>a. target a = ''gate_'' @ str_int g) (gate_action so (cur g) g now)
                = gate_action so (cur g) g now"
    by (auto simp: filter_id_conv dest: gate_action_target)
  show ?case
  proof (cases "h = g")
    case True
    with Cons.prems have "g \<notin> set gs" by simp
    then have "filter (\<lambda>a. target a = ''gate_'' @ str_int g)
                 (concat (map (\<lambda>h. gate_action so (cur h) h now) gs)) = []"
      by (auto simp: filter_empty_conv dest!: gate_action_target dest: str_int_inj)
    with True same show ?thesis by simp
  next
    case False
    with Cons other [of h] show ?thesis by simp
  qed
qed

lemma distinct_range_py: "distinct (range_py n)"
  by (simp add: range_py_def distinct_map)

text \<open>
  Claim C4. \<open>_control_gates\<close> computes one decision, \<open>should_open_gate\<close>: open iff some
  vehicle is WAITING or APPROACHING and admission is possible, where admission is
  possible iff some spot reads free and some charger is not failed (only the \<open>failed\<close>
  entry of a charger's status is looked at). Given that every gate of
  \<open>range(num_gates)\<close> has a recorded state, as the constructor establishes, the call
  returns a list of \<open>gate_control\<close> actions, each aimed at one of these gates, and for every gate the
  actions aimed at it are exactly one (\<open>open\<close> or \<open>close\<close>, as the decision says) when
  its recorded state differs from the decision, and none when it agrees.
\<close>

theorem control_gates_decision:
  assumes "\<forall>g \<in> set (range_py (num_gates ctl)). map_of (gate_states (depot_state ctl)) g \<noteq> None"
  shows "\<exists>acts. control_gates vm ctl now = Inr acts \<and>
     (should_open_gate vm ctl \<longleftrightarrow>
        (\<exists>v \<in> set (map snd (vehicles vm)). state v = WAITING \<or> state v = APPROACHING) \<and>
        can_admit_vehicle (depot_state ctl)) \<and>
     (can_admit_vehicle (depot_state ctl) \<longleftrightarrow>
        (\<exists>occupied \<in> set (map snd (spot_occupancy (depot_state ctl))). \<not> truthy occupied) \<and>
        (\<exists>status \<in> set (map snd (charger_status (depot_state ctl))).
           \<not> truthy (dict_get status ''failed'' (VBool False)))) \<and>
     (\<forall>a \<in> set acts. action_type a = ''gate_control'' \<and>
        (\<exists>g \<in> set (range_py (num_gates ctl)). target a = ''gate_'' @ str_int g)) \<and>
     (\<forall>g \<in> set (range_py (num_gates ctl)). \<forall>cur. map_of (gate_states (depot_state ctl)) g = Some cur \<longrightarrow>
        filter (\<lambda>a. target a = ''gate_'' @ str_int g) acts =
          (if truthy cur \<noteq> should_open_gate vm ctl
           then [create_action ''depot_controller'' ''gate_control'' (''gate_'' @ str_int g)
                   (if should_open_gate vm ctl then ''open'' else ''close'') now]
           else []))"
proof -
  let ?gs = "range_py (num_gates ctl)"
  let ?so = "should_open_gate vm ctl"
  let ?cur = "\<lambda>g. the (map_of (gate_states (depot_state ctl)) g)"
  let ?acts = "concat (map (\<lambda>g. gate_action ?so (?cur g) g now) ?gs)"
  have run: "control_gates vm ctl now = Inr ?acts"
    unfolding control_gates_def using assms by (rule control_gates_loop_ok)
  have all: "\<forall>a \<in> set ?acts. action_type a = ''gate_control'' \<and>
        (\<exists>g \<in> set ?gs. target a = ''gate_'' @ str_int g)"
  proof
    fix a assume "a \<in> set ?acts"
    then obtain g where "g \<in> set ?gs" and "a \<in> set (gate_action ?so (?cur g) g now)"
      by auto
    with gate_action_target [of a ?so "?cur g" g now]
    show "action_type a = ''gate_control'' \<and> (\<exists>g \<in> set ?gs. target a = ''gate_'' @ str_int g)"
      by blast
  qed
  have each: "filter (\<lambda>a. target a = ''gate_'' @ str_int g) ?acts =
          (if truthy cur \<noteq> ?so
           then [create_action ''depot_controller'' ''gate_control'' (''gate_'' @ str_int g)
                   (if ?so then ''open'' else ''close'') now]
           else [])"
    if "g \<in> set ?gs" and "map_of (gate_states (depot_state ctl)) g = Some cur" for g cur
  proof -
    have "filter (\<lambda>a. target a = ''gate_'' @ str_int g) ?acts = gate_action ?so (?cur g) g now"
      using distinct_range_py that(1) by (rule filter_gate_actions)
    also have "\<dots> = gate_action ?so cur g now" using that(2) by simp
    finally show ?thesis by (simp only: gate_action_cases)
  qed
  from run all each should_open_gate_iff can_admit_vehicle_iff show ?thesis by blast
qed

theorem control_gates_decision_witness:
  "range_py (num_gates ctl_ex) = [0, 1] \<and>
   map_of (gate_states (depot_state ctl_ex)) 0 = Some (VBool False) \<and>
   map_of (gate_states (depot_state ctl_ex)) 1 = Some (VBool True) \<and>
   should_open_gate vm_ex ctl_ex \<and>
   control_gates vm_ex ctl_ex 5 =
     Inr [create_action ''depot_controller'' ''gate_control'' ''gate_0'' ''open'' 5]"
proof -
  have keys: "\<forall>g \<in> set (range_py (num_gates ctl_ex)). map_of (gate_states (depot_state ctl_ex)) g \<noteq> None"
    by code_simp
  have so: "should_open_gate vm_ex ctl_ex"
    by code_simp
  have run: "control_gates vm_ex ctl_ex 5 =
     Inr [create_action ''depot_controller'' ''gate_control'' ''gate_0'' ''open'' 5]"
    by code_simp
  have gates: "range_py (num_gates ctl_ex) = [0, 1]"
    "map_of (gate_states (depot_state ctl_ex)) 0 = Some (VBool False)"
    "map_of (gate_states (depot_state ctl_ex)) 1 = Some (VBool True)"
    by code_simp+
  from control_gates_decision [OF keys, of vm_ex 5] gates so run show ?thesis by simp
qed

section \<open>Failed sensors stay failed\<close>

lemma gate_read_failed: "gate_is_failed g \<Longrightarrow> gate_is_failed (snd (gate_read d g))"
  by (simp add: gate_read_def)

lemma gate_read_reports:
  "gate_is_failed g \<Longrightarrow> is_fault (fst (gate_read d g)) \<and> reading_value (fst (gate_read d g)) = VBool False"
  by (simp add: gate_read_def)

lemma gate_apply_failed: "gate_is_failed g \<Longrightarrow> gate_is_failed (gate_apply g op)"
  by (cases op) (simp_all add: gate_read_failed set_state_def)

lemma gate_ops_failed: "gate_is_failed g \<Longrightarrow> gate_is_failed (foldl gate_apply g ops)"
  by (induction ops arbitrary: g) (simp_all add: gate_apply_failed)

lemma charger_read_failed: "charger_is_failed c \<Longrightarrow> charger_is_failed (snd (charger_read d c))"
  by (simp add: charger_read_def)

lemma charger_read_reports:
  assumes "charger_is_failed c"
  shows "is_fault (fst (charger_read d c)) \<and>
     reading_value (fst (charger_read d c)) =
       VDict [(''connected'', VBool (is_connected c)), (''charging'', VBool False),
              (''power_kw'', VFloat 0), (''failed'', VBool True)]"
  using assms by (simp add: charger_read_def)

lemma charger_apply_failed: "charger_is_failed c \<Longrightarrow> charger_is_failed (charger_apply c op)"
  by (cases op)
     (simp_all add: charger_read_failed connect_vehicle_def disconnect_vehicle_def
        start_charging_def stop_charging_def)

lemma charger_ops_failed: "charger_is_failed c \<Longrightarrow> charger_is_failed (foldl charger_apply c ops)"
  by (induction ops arbitrary: c) (simp_all add: charger_apply_failed)

lemma read_sensors_sensors:
  "snd (read_sensors rd draws xs readings) = map (\<lambda>(i, s). (i, snd (rd (draws i) s))) xs"
proof (induction xs arbitrary: readings)
  case Nil
  show ?case by simp
next
  case (Cons x xs)
  obtain i s where x: "x = (i, s)" by (cases x)
  obtain reading s' where rd: "rd (draws i) s = (reading, s')" by (cases "rd (draws i) s")
  obtain rs' rest' where run:
    "read_sensors rd draws xs (AList.update (sensor_name reading) reading readings) = (rs', rest')"
    by (cases "read_sensors rd draws xs (AList.update (sensor_name reading) reading readings)")
  from Cons.IH [of "AList.update (sensor_name reading) reading readings"] run
  have "rest' = map (\<lambda>(i, s). (i, snd (rd (draws i) s))) xs" by simp
  with x rd run show ?case by simp
qed

lemma map_of_read:
  "map_of (map (\<lambda>(i, s). (i, f i s)) xs) k = map_option (f k) (map_of xs k)"
  by (induction xs) auto

lemma read_all_sensors_gates:
  "gates (snd (read_all_sensors d net)) = map (\<lambda>(i, s). (i, snd (gate_read (gate_draws d i) s))) (gates net)"
  using read_sensors_sensors [of gate_read "gate_draws d" "gates net" "[]"]
  by (auto simp: read_all_sensors_def split: prod.splits)

lemma read_all_sensors_chargers:
  "chargers (snd (read_all_sensors d net)) =
     map (\<lambda>(i, s). (i, snd (charger_read (charger_draws d i) s))) (chargers net)"
proof -
  obtain r1 gs where 1: "read_sensors gate_read (gate_draws d) (gates net) [] = (r1, gs)"
    by (cases "read_sensors gate_read (gate_draws d) (gates net) []")
  obtain r2 os where 2: "read_sensors occupancy_read (spot_draws d) (occupancy_sensors net) r1 = (r2, os)"
    by (cases "read_sensors occupancy_read (spot_draws d) (occupancy_sensors net) r1")
  show ?thesis
    using read_sensors_sensors [of charger_read "charger_draws d" "chargers net" r2]
    by (auto simp: read_all_sensors_def 1 2 split: prod.splits)
qed

lemma read_all_sensors_gate_failed:
  "gate_failed net i \<Longrightarrow> gate_failed (snd (read_all_sensors d net)) i"
  by (auto simp: gate_failed_def read_all_sensors_gates map_of_read gate_read_failed
      split: option.splits)

lemma read_all_sensors_charger_failed:
  "charger_failed net i \<Longrightarrow> charger_failed (snd (read_all_sensors d net)) i"
  by (auto simp: charger_failed_def read_all_sensors_chargers map_of_read charger_read_failed
      split: option.splits)

lemma inject_fault_gate_failed:
  "inject_fault name net = Inr net' \<Longrightarrow> gate_failed net i \<Longrightarrow> gate_failed net' i"
  by (auto simp: inject_fault_def gate_failed_def map_of_map_entry
      split: sum.splits option.splits sensor_ref.splits if_splits)

lemma inject_fault_charger_failed:
  "inject_fault name net = Inr net' \<Longrightarrow> charger_failed net i \<Longrightarrow> charger_failed net' i"
  by (auto simp: inject_fault_def charger_failed_def map_of_map_entry
      split: sum.splits option.splits sensor_ref.splits if_splits)

lemma inject_failures_gate_failed:
  "inject_failures e = Inr e' \<Longrightarrow> gate_failed (sensor_network e) i \<Longrightarrow> gate_failed (sensor_network e') i"
  by (auto simp: inject_failures_def gate_failed_def update_conv'
      split: sum.splits option.splits if_splits)

lemma inject_failures_charger_failed:
  "inject_failures e = Inr e' \<Longrightarrow> charger_failed (sensor_network e) i \<Longrightarrow> charger_failed (sensor_network e') i"
  by (auto simp: inject_failures_def charger_failed_def update_conv'
      split: sum.splits option.splits if_splits)

lemma run_step_network:
  assumes "run_step inp e = Inr (r, e')"
  obtains e1 where "inject_failures (e\<lparr>current_step := current_step e + 1\<rparr>) = Inr e1"
    and "sensor_network e' = snd (read_all_sensors (sensor_draws inp) (sensor_network e1))"
  using assms
  by (auto simp: run_step_def Let_def generate_vehicles_def split: sum.splits prod.splits if_splits)

lemma run_step_gate_failed:
  assumes "run_step inp e = Inr (r, e')" and "gate_failed (sensor_network e) i"
  shows "gate_failed (sensor_network e') i"
proof -
  from assms(1) obtain e1 where 1: "inject_failures (e\<lparr>current_step := current_step e + 1\<rparr>) = Inr e1"
    and 2: "sensor_network e' = snd (read_all_sensors (sensor_draws inp) (sensor_network e1))"
    by (rule run_step_network)
  from 1 assms(2) have "gate_failed (sensor_network e1) i"
    by (auto dest: inject_failures_gate_failed)
  then show ?thesis unfolding 2 by (rule read_all_sensors_gate_failed)
qed

lemma run_step_charger_failed:
  assumes "run_step inp e = Inr (r, e')" and "charger_failed (sensor_network e) i"
  shows "charger_failed (sensor_network e') i"
proof -
  from assms(1) obtain e1 where 1: "inject_failures (e\<lparr>current_step := current_step e + 1\<rparr>) = Inr e1"
    and 2: "sensor_network e' = snd (read_all_sensors (sensor_draws inp) (sensor_network e1))"
    by (rule run_step_network)
  from 1 assms(2) have "charger_failed (sensor_network e1) i"
    by (auto dest: inject_failures_charger_failed)
  then show ?thesis unfolding 2 by (rule read_all_sensors_charger_failed)
qed

text \<open>
  Claim C5. Once the failed flag of a gate sensor or of a charger sensor is set, it
  stays set under every sequence of operations on the sensor (reads with any draws,
  \<open>set_state\<close>, \<open>connect_vehicle\<close>, \<open>disconnect_vehicle\<close>, \<open>start_charging\<close>,
  \<open>stop_charging\<close>, fault injection), and a read after them reports the failure:
  \<open>is_fault\<close> is true; a gate reads closed; a charger's status has \<open>failed\<close> true,
  \<open>charging\<close> false and \<open>power_kw\<close> zero. In the network, \<open>read_all_sensors\<close> and
  \<open>inject_fault\<close> keep the flag of every gate and charger, and so does a whole
  \<open>run_step\<close> of the engine.
\<close>

theorem failed_flag_sticky:
  "(gate_is_failed g \<longrightarrow>
      gate_is_failed (foldl gate_apply g gops) \<and>
      is_fault (fst (gate_read d (foldl gate_apply g gops))) \<and>
      reading_value (fst (gate_read d (foldl gate_apply g gops))) = VBool False) \<and>
   (charger_is_failed c \<longrightarrow>
      charger_is_failed (foldl charger_apply c cops) \<and>
      is_fault (fst (charger_read d (foldl charger_apply c cops))) \<and>
      reading_value (fst (charger_read d (foldl charger_apply c cops))) =
        VDict [(''connected'', VBool (is_connected (foldl charger_apply c cops))),
               (''charging'', VBool False), (''power_kw'', VFloat 0), (''failed'', VBool True)]) \<and>
   (gate_failed net i \<longrightarrow>
      gate_failed (snd (read_all_sensors sd net)) i \<and>
      (\<forall>net'. inject_fault name net = Inr net' \<longrightarrow> gate_failed net' i)) \<and>
   (charger_failed net i \<longrightarrow>
      charger_failed (snd (read_all_sensors sd net)) i \<and>
      (\<forall>net'. inject_fault name net = Inr net' \<longrightarrow> charger_failed net' i)) \<and>
   (\<forall>r e'. run_step inp e = Inr (r, e') \<longrightarrow>
      (gate_failed (sensor_network e) i \<longrightarrow> gate_failed (sensor_network e') i) \<and>
      (charger_failed (sensor_network e) i \<longrightarrow> charger_failed (sensor_network e') i))"
proof (intro conjI impI allI)
  assume g: "gate_is_failed g"
  then show "gate_is_failed (foldl gate_apply g gops)" by (rule gate_ops_failed)
  then show "is_fault (fst (gate_read d (foldl gate_apply g gops)))"
    and "reading_value (fst (gate_read d (foldl gate_apply g gops))) = VBool False"
    by (simp_all add: gate_read_reports)
next
  assume c: "charger_is_failed c"
  then show "charger_is_failed (foldl charger_apply c cops)" by (rule charger_ops_failed)
  then show "is_fault (fst (charger_read d (foldl charger_apply c cops)))"
    and "reading_value (fst (charger_read d (foldl charger_apply c cops))) =
        VDict [(''connected'', VBool (is_connected (foldl charger_apply c cops))),
               (''charging'', VBool False), (''power_kw'', VFloat 0), (''failed'', VBool True)]"
    by (simp_all add: charger_read_reports)
next
  assume "gate_failed net i"
  then show "gate_failed (snd (read_all_sensors sd net)) i" by (rule read_all_sensors_gate_failed)
next
  fix net' assume "gate_failed net i" and "inject_fault name net = Inr net'"
  then show "gate_failed net' i" by (simp add: inject_fault_gate_failed)
next
  assume "charger_failed net i"
  then show "charger_failed (snd (read_all_sensors sd net)) i"
    by (rule read_all_sensors_charger_failed)
next
  fix net' assume "charger_failed net i" and "inject_fault name net = Inr net'"
  then show "charger_failed net' i" by (simp add: inject_fault_charger_failed)
next
  fix r e' assume "run_step inp e = Inr (r, e')" and "gate_failed (sensor_network e) i"
  then show "gate_failed (sensor_network e') i" by (rule run_step_gate_failed)
next
  fix r e' assume "run_step inp e = Inr (r, e')" and "charger_failed (sensor_network e) i"
  then show "charger_failed (sensor_network e') i" by (rule run_step_charger_failed)
qed

theorem failed_flag_sticky_witness:
  "gate_is_failed (gate_apply (GateSensor_init 0) GateInjectFault) \<and>
   is_fault (fst (gate_read 0.5
     (foldl gate_apply (gate_apply (GateSensor_init 0) GateInjectFault)
        [GateSetState True, GateRead 0.5]))) \<and>
   charger_is_failed (charger_apply (ChargerSensor_init 0) ChargerInjectFault) \<and>
   is_fault (fst (charger_read 0.5
     (foldl charger_apply (charger_apply (ChargerSensor_init 0) ChargerInjectFault)
        [ConnectVehicle, StartCharging 50, ChargerRead 0.5, DisconnectVehicle]))) \<and>
   gate_failed net_failed_ex 0 \<and> charger_failed net_failed_ex 0 \<and>
   inject_fault ''spot_0'' net_failed_ex = Inr net_failed_ex \<and>
   (case run_step (two_arrivals 0) engine_failed_ex of
      Inl x \<Rightarrow> False
    | Inr (r, e') \<Rightarrow> gate_failed (sensor_network e') 0 \<and> charger_failed (sensor_network e') 0)"
proof -
  have g: "gate_is_failed (gate_apply (GateSensor_init 0) GateInjectFault)" by code_simp
  have c: "charger_is_failed (charger_apply (ChargerSensor_init 0) ChargerInjectFault)" by code_simp
  have n: "gate_failed net_failed_ex 0" "charger_failed net_failed_ex 0"
    "inject_fault ''spot_0'' net_failed_ex = Inr net_failed_ex" by code_simp+
  obtain r e' where run: "run_step (two_arrivals 0) engine_failed_ex = Inr (r, e')"
  proof -
    have "case run_step (two_arrivals 0) engine_failed_ex of Inl x \<Rightarrow> False | Inr p \<Rightarrow> True"
      by code_simp
    then show ?thesis using that by (auto split: sum.splits)
  qed
  have e: "gate_failed (sensor_network engine_failed_ex) 0"
    "charger_failed (sensor_network engine_failed_ex) 0" by code_simp+
  from failed_flag_sticky [where g = "gate_apply (GateSensor_init 0) GateInjectFault"
      and gops = "[GateSetState True, GateRead 0.5]" and d = "0.5"
      and c = "charger_apply (ChargerSensor_init 0) ChargerInjectFault"
      and cops = "[ConnectVehicle, StartCharging 50, ChargerRead 0.5, DisconnectVehicle]"
      and net = net_failed_ex and i = 0 and sd = quiet and name = "''spot_0''"
      and inp = "two_arrivals 0" and e = engine_failed_ex]
    g c n e run
  show ?thesis by simp
qed

section \<open>Well-formed states are kept and no step raises\<close>

subsection \<open>Taking in the readings\<close>

lemma update_reading_unknown: "\<not> known_prefix (fst item) \<Longrightarrow> update_reading item ds = Inr ds"
  by (cases item) (simp add: update_reading_def known_prefix_def)

lemma update_reading_ok:
  assumes "known_prefix (fst item) \<longrightarrow> \<not> isl (sensor_index (fst item))"
  shows "\<exists>ds'. update_reading item ds = Inr ds' \<and>
      dom (map_of (gate_states ds)) \<subseteq> dom (map_of (gate_states ds')) \<and>
      dom (map_of (spot_occupancy ds)) \<subseteq> dom (map_of (spot_occupancy ds')) \<and>
      dom (map_of (charger_status ds)) \<subseteq> dom (map_of (charger_status ds'))"
proof (cases item)
  case (Pair name reading)
  show ?thesis
  proof (cases "known_prefix name")
    case False
    with Pair show ?thesis by (simp add: update_reading_unknown)
  next
    case True
    with assms Pair obtain i where "sensor_index name = Inr i"
      by (cases "sensor_index name") auto
    with Pair show ?thesis
      by (auto simp: update_reading_def update_conv' split: pyval.splits)
  qed
qed

lemma update_depot_state_ok:
  assumes "names_parse sensor_readings"
  shows "\<exists>ds'. update_depot_state sensor_readings ds = Inr ds' \<and>
      dom (map_of (gate_states ds)) \<subseteq> dom (map_of (gate_states ds')) \<and>
      dom (map_of (spot_occupancy ds)) \<subseteq> dom (map_of (spot_occupancy ds')) \<and>
      dom (map_of (charger_status ds)) \<subseteq> dom (map_of (charger_status ds'))"
  using assms
proof (induction sensor_readings arbitrary: ds)
  case Nil
  show ?case by simp
next
  case (Cons item rest)
  from Cons.prems have "known_prefix (fst item) \<longrightarrow> \<not> isl (sensor_index (fst item))"
    and rest: "names_parse rest"
    by (simp_all add: names_parse_def)
  then obtain ds1 where 1: "update_reading item ds = Inr ds1"
    and d1: "dom (map_of (gate_states ds)) \<subseteq> dom (map_of (gate_states ds1))"
      "dom (map_of (spot_occupancy ds)) \<subseteq> dom (map_of (spot_occupancy ds1))"
      "dom (map_of (charger_status ds)) \<subseteq> dom (map_of (charger_status ds1))"
    using update_reading_ok [of item ds] by blast
  from Cons.IH [OF rest, of ds1] obtain ds' where 2: "update_depot_state rest ds1 = Inr ds'"
    and d2: "dom (map_of (gate_states ds1)) \<subseteq> dom (map_of (gate_states ds'))"
      "dom (map_of (spot_occupancy ds1)) \<subseteq> dom (map_of (spot_occupancy ds'))"
      "dom (map_of (charger_status ds1)) \<subseteq> dom (map_of (charger_status ds'))"
    by blast
  from 1 2 have "update_depot_state (item # rest) ds = Inr ds'" by simp
  with d1 d2 show ?case by blast
qed

lemma update_depot_state_ignores_unknown:
  "update_depot_state sensor_readings ds =
     update_depot_state (filter (\<lambda>item. known_prefix (fst item)) sensor_readings) ds"
  by (induction sensor_readings arbitrary: ds) (auto simp: update_reading_unknown split: sum.splits)

subsection \<open>Registry operations: what they leave alone\<close>

lemma map_entry_proj:
  assumes "\<And>v. p (f v) = p v"
  shows "map (\<lambda>(k, v). (k, p v)) (AList.map_entry k0 f xs) = map (\<lambda>(k, v). (k, p v)) xs"
  using assms by (induction xs) auto

lemma update_proj:
  assumes "map_of xs k0 = Some v" and "p v' = p v"
  shows "map (\<lambda>(k, v). (k, p v)) (AList.update k0 v' xs) = map (\<lambda>(k, v). (k, p v)) xs"
  using assms by (induction xs) (auto split: if_splits)

lemma map_entry_all:
  assumes "\<forall>v \<in> set (map snd xs). P v" and "\<And>v. P v \<Longrightarrow> P (f v)"
  shows "\<forall>v \<in> set (map snd (AList.map_entry k0 f xs)). P v"
  using assms by (induction xs) auto

lemma update_all:
  assumes "\<forall>v \<in> set (map snd xs). P v" and "P v'"
  shows "\<forall>v \<in> set (map snd (AList.update k0 v' xs)). P v"
  using assms by (induction xs) auto

lemma map_of_all:
  assumes "\<forall>v \<in> set (map snd xs). P v" and "map_of xs k = Some v"
  shows "P v"
proof -
  from assms(2) have "(k, v) \<in> set xs" by (rule map_of_SomeD)
  then have "v \<in> set (map snd xs)" by force
  with assms(1) show ?thesis by blast
qed

lemma assign_spot_frame: "frame (snd (assign_spot vid s vm)) = frame vm"
proof (cases "map_of (vehicles vm) vid")
  case None
  then show ?thesis by (simp add: assign_spot_def)
next
  case (Some vehicle)
  have "fproj (vehicle\<lparr>assigned_spot := Some s\<rparr>) = fproj vehicle" by (simp add: fproj_def)
  with Some have "map (\<lambda>(k, v). (k, fproj v))
        (AList.update vid (vehicle\<lparr>assigned_spot := Some s\<rparr>) (vehicles vm))
      = map (\<lambda>(k, v). (k, fproj v)) (vehicles vm)"
    by (rule update_proj)
  with Some show ?thesis by (simp add: assign_spot_def frame_def Let_def)
qed

lemma assign_spot_chargers:
  assumes "chargers_known vm ds"
  shows "chargers_known (snd (assign_spot vid s vm)) ds"
proof (cases "map_of (vehicles vm) vid")
  case None
  with assms show ?thesis by (simp add: assign_spot_def)
next
  case (Some vehicle)
  with assms have "charger_ok ds vehicle"
    unfolding chargers_known_def by (rule map_of_all)
  then have "charger_ok ds (vehicle\<lparr>assigned_spot := Some s\<rparr>)" by (simp add: charger_ok_def)
  with assms have "\<forall>v \<in> set (map snd (AList.update vid (vehicle\<lparr>assigned_spot := Some s\<rparr>) (vehicles vm))).
      charger_ok ds v"
    unfolding chargers_known_def by (rule update_all)
  with assms Some show ?thesis by (simp add: assign_spot_def chargers_known_def Let_def)
qed

lemma free_spot_frame: "frame (free_spot s vm) = frame vm"
proof -
  have "map (\<lambda>(k, v). (k, fproj v))
          (AList.map_entry vid (\<lambda>v. v\<lparr>assigned_spot := None\<rparr>) (vehicles vm))
        = map (\<lambda>(k, v). (k, fproj v)) (vehicles vm)" for vid
    by (rule map_entry_proj) (simp add: fproj_def)
  then show ?thesis by (simp add: free_spot_def frame_def split: option.splits)
qed

lemma free_spot_chargers:
  assumes "chargers_known vm ds"
  shows "chargers_known (free_spot s vm) ds"
proof -
  have "\<forall>v \<in> set (map snd (AList.map_entry vid (\<lambda>v. v\<lparr>assigned_spot := None\<rparr>) (vehicles vm))).
      charger_ok ds v" for vid
    using assms unfolding chargers_known_def
    by (rule map_entry_all) (simp add: charger_ok_def)
  with assms show ?thesis
    by (simp add: free_spot_def chargers_known_def split: option.splits)
qed

lemma set_vehicle_frame:
  assumes "\<And>v. fproj (f v) = fproj v"
  shows "frame (set_vehicle k f vm) = frame vm"
  using assms by (simp add: set_vehicle_def frame_def map_entry_proj)

lemma set_vehicle_chargers:
  assumes "chargers_known vm ds" and "\<And>v. charger_ok ds v \<Longrightarrow> charger_ok ds (f v)"
  shows "chargers_known (set_vehicle k f vm) ds"
proof -
  from assms(1) have "\<forall>v \<in> set (map snd (vehicles vm)). charger_ok ds v"
    by (simp only: chargers_known_def)
  then have "\<forall>v \<in> set (map snd (AList.map_entry k f (vehicles vm))). charger_ok ds v"
    using assms(2) by (rule map_entry_all)
  then show ?thesis by (simp add: chargers_known_def set_vehicle_def)
qed

subsection \<open>Processing the vehicles never raises in a well-formed state\<close>

lemma ctl_extends_refl: "ctl_extends ctl ctl"
  by (simp add: ctl_extends_def)

lemma ctl_extends_trans: "ctl_extends a b \<Longrightarrow> ctl_extends b c \<Longrightarrow> ctl_extends a c"
  by (auto simp: ctl_extends_def)

lemma ctl_extends_keys: "controller_keys ctl \<Longrightarrow> ctl_extends ctl ctl' \<Longrightarrow> controller_keys ctl'"
  by (simp add: ctl_extends_def controller_keys_def subset_iff domIff)

lemma charger_ok_mono:
  assumes "charger_ok ds v" and "dom (map_of (charger_status ds)) \<subseteq> dom (map_of (charger_status ds'))"
  shows "charger_ok ds' v"
  using assms by (auto simp: charger_ok_def subset_iff domIff split: option.splits)

lemma chargers_known_mono:
  assumes "chargers_known vm ds" and "dom (map_of (charger_status ds)) \<subseteq> dom (map_of (charger_status ds'))"
  shows "chargers_known vm ds'"
  using assms unfolding chargers_known_def by (blast intro: charger_ok_mono)

lemma assign_parking_spot_loop_ok:
  assumes "\<forall>s \<in> set ss. map_of (spot_occupancy ds) s \<noteq> None" and "chargers_known vm ds0"
  shows "\<exists>r vm'. assign_parking_spot_loop ss vehicle vm ds = Inr (r, vm') \<and>
           frame vm' = frame vm \<and> chargers_known vm' ds0"
  using assms
proof (induction ss arbitrary: vm)
  case Nil
  then show ?case by simp
next
  case (Cons s rest)
  from Cons.prems obtain occupied where occ: "map_of (spot_occupancy ds) s = Some occupied"
    by auto
  from Cons.prems have rest: "\<forall>s \<in> set rest. map_of (spot_occupancy ds) s \<noteq> None" by simp
  show ?case
  proof (cases "truthy occupied")
    case True
    with occ Cons.IH [OF rest Cons.prems(2)] show ?thesis by simp
  next
    case False
    obtain ok vm1 where a: "assign_spot (vehicle_id vehicle) s vm = (ok, vm1)"
      by (cases "assign_spot (vehicle_id vehicle) s vm")
    then have vm1: "vm1 = snd (assign_spot (vehicle_id vehicle) s vm)" by simp
    have f1: "frame vm1 = frame vm" unfolding vm1 by (rule assign_spot_frame)
    have c1: "chargers_known vm1 ds0" unfolding vm1 using Cons.prems(2) by (rule assign_spot_chargers)
    show ?thesis
    proof (cases ok)
      case True
      with occ False a f1 c1 show ?thesis by simp
    next
      case nok: False
      from Cons.IH [OF rest c1] obtain r vm' where
        "assign_parking_spot_loop rest vehicle vm1 ds = Inr (r, vm')"
        "frame vm' = frame vm1" "chargers_known vm' ds0" by blast
      with occ False a nok f1 show ?thesis by simp
    qed
  qed
qed

lemma assign_charger_loop_ok:
  assumes "\<forall>c \<in> set cs. map_of (charger_status ds) c \<noteq> None"
  shows "\<exists>r. assign_charger_loop cs ds = Inr r \<and> (\<forall>c. r = Some c \<longrightarrow> c \<in> set cs)"
  using assms by (induction cs) auto

lemma free_vehicle_resources_ok:
  assumes "charger_ok (depot_state ctl) vehicle" and "chargers_known vm (depot_state ctl)"
  shows "\<exists>vm' ctl'. free_vehicle_resources vehicle vm ctl = Inr (vm', ctl') \<and>
           frame vm' = frame vm \<and> ctl_extends ctl ctl' \<and> chargers_known vm' (depot_state ctl')"
proof -
  let ?vm' = "case assigned_spot vehicle of None \<Rightarrow> vm | Some s \<Rightarrow> free_spot s vm"
  have f: "frame ?vm' = frame vm" by (simp add: free_spot_frame split: option.splits)
  have c: "chargers_known ?vm' (depot_state ctl)"
    using assms(2) by (simp add: free_spot_chargers split: option.splits)
  show ?thesis
  proof (cases "assigned_charger vehicle")
    case None
    with f c show ?thesis by (simp add: free_vehicle_resources_def ctl_extends_refl)
  next
    case (Some ch)
    with assms(1) obtain status where st: "map_of (charger_status (depot_state ctl)) ch = Some status"
      by (auto simp: charger_ok_def)
    let ?status' = "AList.update ''charging'' (VBool False)
                      (AList.update ''connected'' (VBool False) status)"
    let ?ctl' = "ctl\<lparr>depot_state := (depot_state ctl)\<lparr>charger_status :=
                    AList.update ch ?status' (charger_status (depot_state ctl))\<rparr>\<rparr>"
    have run: "free_vehicle_resources vehicle vm ctl = Inr (?vm', ?ctl')"
      using Some st by (simp add: free_vehicle_resources_def Let_def)
    have ext: "ctl_extends ctl ?ctl'" by (simp add: ctl_extends_def update_conv' subset_iff domIff)
    then have "dom (map_of (charger_status (depot_state ctl))) \<subseteq>
        dom (map_of (charger_status (depot_state ?ctl')))" by (simp add: ctl_extends_def)
    with c have "chargers_known ?vm' (depot_state ?ctl')" by (rule chargers_known_mono)
    with run f ext show ?thesis by blast
  qed
qed

lemma process_vehicle_ok:
  assumes keys: "controller_keys ctl" and known: "chargers_known vm (depot_state ctl)"
  shows "\<exists>vm' ctl' acts. process_vehicle k vm ctl now = Inr (vm', ctl', acts) \<and>
           frame vm' = frame vm \<and> ctl_extends ctl ctl' \<and> chargers_known vm' (depot_state ctl')"
proof (cases "map_of (vehicles vm) k")
  case None
  with known show ?thesis by (simp add: process_vehicle_def ctl_extends_refl)
next
  case (Some vehicle)
  have stay: ?thesis if "process_vehicle k vm ctl now = Inr (vm, ctl, [])"
    using that known ctl_extends_refl by auto
  have move: "\<exists>vm' ctl' acts'. Inr (set_vehicle k f vm1, ctl, acts) = Inr (vm', ctl', acts') \<and>
           frame vm' = frame vm \<and> ctl_extends ctl ctl' \<and> chargers_known vm' (depot_state ctl')"
    if "frame vm1 = frame vm" and "chargers_known vm1 (depot_state ctl)"
      and "\<And>v. fproj (f v) = fproj v"
      and "\<And>v. charger_ok (depot_state ctl) v \<Longrightarrow> charger_ok (depot_state ctl) (f v)"
    for f vm1 and acts :: "ControlAction list"
    using that by (simp add: set_vehicle_frame set_vehicle_chargers ctl_extends_refl)
  from known Some have vok: "charger_ok (depot_state ctl) vehicle"
    unfolding chargers_known_def by (rule map_of_all)
  consider (app) "state vehicle = APPROACHING" | (ent) "state vehicle = ENTERING"
    | (park) "state vehicle = PARKING" | (chg) "state vehicle = CHARGING"
    | (ex) "state vehicle = EXITING" | (other) "state vehicle = WAITING \<or> state vehicle = DEPARTED"
    by (cases "state vehicle") auto
  then show ?thesis
  proof cases
    case app
    show ?thesis
    proof (cases "can_admit_vehicle (depot_state ctl)")
      case False
      with Some app show ?thesis by (intro stay) (simp add: process_vehicle_def)
    next
      case True
      from keys have "\<forall>s \<in> set (range_py (num_spots ctl)). map_of (spot_occupancy (depot_state ctl)) s \<noteq> None"
        by (simp add: controller_keys_def)
      from assign_parking_spot_loop_ok [OF this known, of vehicle]
      obtain r vm1 where a: "assign_parking_spot vehicle vm ctl = Inr (r, vm1)"
        and f1: "frame vm1 = frame vm" and c1: "chargers_known vm1 (depot_state ctl)"
        unfolding assign_parking_spot_def by blast
      show ?thesis
      proof (cases r)
        case None
        have "process_vehicle k vm ctl now = Inr (set_vehicle k (\<lambda>v. v\<lparr>state := WAITING\<rparr>) vm1, ctl, [])"
          using Some app True a None by (simp add: process_vehicle_def)
        moreover note move [OF f1 c1, of "\<lambda>v. v\<lparr>state := WAITING\<rparr>" "[]"]
        ultimately show ?thesis by (simp add: fproj_def charger_ok_def)
      next
        case (Some spot)
        have "process_vehicle k vm ctl now =
            Inr (set_vehicle k (\<lambda>v. v\<lparr>state := ENTERING\<rparr>) vm1, ctl,
                 [create_action ''depot_controller'' ''vehicle_assignment''
                            (''vehicle_'' @ vehicle_id vehicle)
                            (''assign_spot_'' @ str_int spot) now])"
          using \<open>map_of (vehicles vm) k = Some vehicle\<close> app True a Some
          by (simp add: process_vehicle_def)
        moreover note move [OF f1 c1, of "\<lambda>v. v\<lparr>state := ENTERING\<rparr>"]
        ultimately show ?thesis by (simp add: fproj_def charger_ok_def)
      qed
    qed
  next
    case ent
    have "process_vehicle k vm ctl now = Inr (set_vehicle k (\<lambda>v. v\<lparr>state := PARKING\<rparr>) vm, ctl, [])"
      using Some ent by (simp add: process_vehicle_def)
    moreover note move [OF refl known, of "\<lambda>v. v\<lparr>state := PARKING\<rparr>" "[]"]
    ultimately show ?thesis by (simp add: fproj_def charger_ok_def)
  next
    case park
    from keys have ck: "\<forall>c \<in> set (range_py (num_chargers ctl)). map_of (charger_status (depot_state ctl)) c \<noteq> None"
      by (simp add: controller_keys_def)
    from assign_charger_loop_ok [OF ck]
    obtain r where a: "assign_charger ctl = Inr r"
      and r: "\<forall>c. r = Some c \<longrightarrow> c \<in> set (range_py (num_chargers ctl))"
      unfolding assign_charger_def by blast
    show ?thesis
    proof (cases r)
      case None
      with Some park a show ?thesis by (intro stay) (simp add: process_vehicle_def)
    next
      case (Some charger)
      with r ck have ch: "map_of (charger_status (depot_state ctl)) charger \<noteq> None" by blast
      have "process_vehicle k vm ctl now =
          Inr (set_vehicle k (\<lambda>v. v\<lparr>assigned_charger := Some charger, state := CHARGING\<rparr>) vm, ctl,
               [create_action ''depot_controller'' ''charger_assignment''
                         (''charger_'' @ str_int charger) ''start_charging'' now])"
        using \<open>map_of (vehicles vm) k = Some vehicle\<close> park a Some
        by (simp add: process_vehicle_def)
      moreover note move [OF refl known, of "\<lambda>v. v\<lparr>assigned_charger := Some charger, state := CHARGING\<rparr>"]
      ultimately show ?thesis using ch by (simp add: fproj_def charger_ok_def)
    qed
  next
    case chg
    show ?thesis
    proof (cases "can_depart vehicle")
      case True
      have "\<exists>acts. process_vehicle k vm ctl now =
          Inr (set_vehicle k (\<lambda>v. v\<lparr>state := EXITING\<rparr>) vm, ctl, acts)"
        using Some chg True by (simp add: process_vehicle_def)
      then obtain acts where "process_vehicle k vm ctl now =
          Inr (set_vehicle k (\<lambda>v. v\<lparr>state := EXITING\<rparr>) vm, ctl, acts)" by blast
      moreover note move [OF refl known, of "\<lambda>v. v\<lparr>state := EXITING\<rparr>" acts]
      ultimately show ?thesis by (simp add: fproj_def charger_ok_def)
    next
      case False
      show ?thesis
      proof (cases "is_charger_failed ctl (assigned_charger vehicle)")
        case True
        have "process_vehicle k vm ctl now =
          Inr (set_vehicle k (\<lambda>v. v\<lparr>state := WAITING\<rparr>) vm, ctl,
               [create_action ''depot_controller'' ''fault_response''
                       (''vehicle_'' @ vehicle_id vehicle) ''charger_failure_detected'' now])"
          using Some chg False True by (simp add: process_vehicle_def)
        moreover note move [OF refl known, of "\<lambda>v. v\<lparr>state := WAITING\<rparr>"]
        ultimately show ?thesis by (simp add: fproj_def charger_ok_def)
      next
        case nf: False
        with Some chg False show ?thesis by (intro stay) (simp add: process_vehicle_def)
      qed
    qed
  next
    case ex
    from free_vehicle_resources_ok [OF vok known]
    obtain vm1 ctl1 where fr: "free_vehicle_resources vehicle vm ctl = Inr (vm1, ctl1)"
      and f1: "frame vm1 = frame vm" and e1: "ctl_extends ctl ctl1"
      and c1: "chargers_known vm1 (depot_state ctl1)" by blast
    let ?f = "\<lambda>v. v\<lparr>state := DEPARTED, departure_time := Some now\<rparr>"
    have run: "process_vehicle k vm ctl now = Inr (set_vehicle k ?f vm1, ctl1, [])"
      using Some ex fr by (simp add: process_vehicle_def)
    have "frame (set_vehicle k ?f vm1) = frame vm1"
      by (rule set_vehicle_frame) (simp add: fproj_def)
    moreover have "chargers_known (set_vehicle k ?f vm1) (depot_state ctl1)"
      using c1 by (rule set_vehicle_chargers) (simp add: charger_ok_def)
    ultimately show ?thesis using run f1 e1 by simp
  next
    case other
    with Some show ?thesis by (intro stay) (auto simp: process_vehicle_def)
  qed
qed

lemma process_vehicles_ok:
  assumes "controller_keys ctl" and "chargers_known vm (depot_state ctl)"
  shows "\<exists>vm' ctl' acts. process_vehicles ks vm ctl now = Inr (vm', ctl', acts) \<and>
           frame vm' = frame vm \<and> ctl_extends ctl ctl' \<and> chargers_known vm' (depot_state ctl')"
  using assms
proof (induction ks arbitrary: vm ctl)
  case Nil
  then show ?case by (simp add: ctl_extends_refl)
next
  case (Cons k ks)
  from process_vehicle_ok [OF Cons.prems, of k now]
  obtain vm1 ctl1 acts1 where 1: "process_vehicle k vm ctl now = Inr (vm1, ctl1, acts1)"
    and f1: "frame vm1 = frame vm" and e1: "ctl_extends ctl ctl1"
    and c1: "chargers_known vm1 (depot_state ctl1)" by blast
  from Cons.prems(1) e1 have k1: "controller_keys ctl1" by (rule ctl_extends_keys)
  from Cons.IH [OF k1 c1]
  obtain vm2 ctl2 acts2 where 2: "process_vehicles ks vm1 ctl1 now = Inr (vm2, ctl2, acts2)"
    and f2: "frame vm2 = frame vm1" and e2: "ctl_extends ctl1 ctl2"
    and c2: "chargers_known vm2 (depot_state ctl2)" by blast
  from 1 2 have "process_vehicles (k # ks) vm ctl now = Inr (vm2, ctl2, acts1 @ acts2)" by simp
  moreover from e1 e2 have "ctl_extends ctl ctl2" by (rule ctl_extends_trans)
  ultimately show ?case using f1 f2 c2 by simp
qed

lemma control_gates_ok:
  assumes "controller_keys ctl"
  shows "\<exists>acts. control_gates vm ctl now = Inr acts"
  using assms control_gates_loop_ok [of "range_py (num_gates ctl)" "depot_state ctl"]
  by (simp add: control_gates_def controller_keys_def)

lemma process_step_ok:
  assumes names: "names_parse sensor_readings" and keys: "controller_keys ctl"
    and known: "chargers_known vm (depot_state ctl)"
  shows "\<exists>vm' ctl' acts. process_step sensor_readings vm ctl now = Inr (vm', ctl', acts) \<and>
           frame vm' = frame vm \<and> controller_keys ctl' \<and> chargers_known vm' (depot_state ctl') \<and>
           num_gates ctl' = num_gates ctl \<and> num_spots ctl' = num_spots ctl \<and>
           num_chargers ctl' = num_chargers ctl"
proof -
  from update_depot_state_ok [OF names, of "depot_state ctl"]
  obtain ds where u: "update_depot_state sensor_readings (depot_state ctl) = Inr ds"
    and d: "dom (map_of (gate_states (depot_state ctl))) \<subseteq> dom (map_of (gate_states ds))"
      "dom (map_of (spot_occupancy (depot_state ctl))) \<subseteq> dom (map_of (spot_occupancy ds))"
      "dom (map_of (charger_status (depot_state ctl))) \<subseteq> dom (map_of (charger_status ds))"
    by blast
  let ?ctl1 = "ctl\<lparr>depot_state := ds\<rparr>"
  from keys d have k1: "controller_keys ?ctl1"
    by (simp add: controller_keys_def subset_iff domIff)
  from known d(3) have c1: "chargers_known vm (depot_state ?ctl1)"
    by (simp add: chargers_known_mono)
  from process_vehicles_ok [OF k1 c1, of "map fst (vehicles vm)" now]
  obtain vm2 ctl2 acts where p: "process_vehicles (map fst (vehicles vm)) vm ?ctl1 now = Inr (vm2, ctl2, acts)"
    and f2: "frame vm2 = frame vm" and e2: "ctl_extends ?ctl1 ctl2"
    and c2: "chargers_known vm2 (depot_state ctl2)" by blast
  from k1 e2 have k2: "controller_keys ctl2" by (rule ctl_extends_keys)
  from control_gates_ok [OF k2] obtain gacts where g: "control_gates vm2 ctl2 now = Inr gacts"
    by blast
  from u p g have "process_step sensor_readings vm ctl now = Inr (vm2, ctl2, acts @ gacts)"
    by (simp add: process_step_def)
  with f2 k2 c2 e2 show ?thesis by (simp add: ctl_extends_def)
qed

subsection \<open>The engine's own readings are well named\<close>

lemma sensor_names_parse:
  "\<not> isl (sensor_index (''gate_'' @ str_int i))"
  "\<not> isl (sensor_index (''spot_'' @ str_int i))"
  "\<not> isl (sensor_index (''charger_'' @ str_int i))"
  unfolding sensor_index_names by simp_all

lemma read_names:
  "sensor_name (fst (gate_read d g)) = ''gate_'' @ str_int (gate_id g)"
  "sensor_name (fst (occupancy_read d s)) = ''spot_'' @ str_int (spot_id s)"
  "sensor_name (fst (charger_read d c)) = ''charger_'' @ str_int (charger_id c)"
  by (simp_all add: gate_read_def occupancy_read_def charger_read_def Let_def)

lemma set_alist_update: "set (AList.update k v xs) \<subseteq> insert (k, v) (set xs)"
  by (induction xs) auto

lemma read_sensors_items:
  assumes "\<forall>item \<in> set readings. P item"
    and "\<forall>(i, s) \<in> set xs. P (sensor_name (fst (rd (draws i) s)), fst (rd (draws i) s))"
  shows "\<forall>item \<in> set (fst (read_sensors rd draws xs readings)). P item"
  using assms
proof (induction xs arbitrary: readings)
  case Nil
  then show ?case by simp
next
  case (Cons x xs)
  obtain i s where x: "x = (i, s)" by (cases x)
  obtain reading s' where rd: "rd (draws i) s = (reading, s')" by (cases "rd (draws i) s")
  let ?rs = "AList.update (sensor_name reading) reading readings"
  obtain rs' rest' where run: "read_sensors rd draws xs ?rs = (rs', rest')"
    by (cases "read_sensors rd draws xs ?rs")
  from Cons.prems(2) x rd have "P (sensor_name reading, reading)" by simp
  moreover have "set ?rs \<subseteq> insert (sensor_name reading, reading) (set readings)"
    by (rule set_alist_update)
  ultimately have "\<forall>item \<in> set ?rs. P item" using Cons.prems(1) by blast
  moreover from Cons.prems(2) have "\<forall>(i, s) \<in> set xs. P (sensor_name (fst (rd (draws i) s)), fst (rd (draws i) s))"
    by simp
  ultimately have "\<forall>item \<in> set (fst (read_sensors rd draws xs ?rs)). P item" by (rule Cons.IH)
  with x rd run show ?case by simp
qed

lemma read_all_sensors_items:
  assumes "\<forall>(i, s) \<in> set (gates net). P (sensor_name (fst (gate_read (gate_draws d i) s)), fst (gate_read (gate_draws d i) s))"
    and "\<forall>(i, s) \<in> set (occupancy_sensors net). P (sensor_name (fst (occupancy_read (spot_draws d i) s)), fst (occupancy_read (spot_draws d i) s))"
    and "\<forall>(i, s) \<in> set (chargers net). P (sensor_name (fst (charger_read (charger_draws d i) s)), fst (charger_read (charger_draws d i) s))"
  shows "\<forall>item \<in> set (fst (read_all_sensors d net)). P item"
proof -
  obtain r1 gs where 1: "read_sensors gate_read (gate_draws d) (gates net) [] = (r1, gs)"
    by (cases "read_sensors gate_read (gate_draws d) (gates net) []")
  obtain r2 os where 2: "read_sensors occupancy_read (spot_draws d) (occupancy_sensors net) r1 = (r2, os)"
    by (cases "read_sensors occupancy_read (spot_draws d) (occupancy_sensors net) r1")
  obtain r3 cs where 3: "read_sensors charger_read (charger_draws d) (chargers net) r2 = (r3, cs)"
    by (cases "read_sensors charger_read (charger_draws d) (chargers net) r2")
  have "\<forall>item \<in> set (fst (read_sensors gate_read (gate_draws d) (gates net) [])). P item"
    using _ assms(1) by (rule read_sensors_items) simp
  with 1 have p1: "\<forall>item \<in> set r1. P item" by simp
  have "\<forall>item \<in> set (fst (read_sensors occupancy_read (spot_draws d) (occupancy_sensors net) r1)). P item"
    using p1 assms(2) by (rule read_sensors_items)
  with 2 have p2: "\<forall>item \<in> set r2. P item" by simp
  have "\<forall>item \<in> set (fst (read_sensors charger_read (charger_draws d) (chargers net) r2)). P item"
    using p2 assms(3) by (rule read_sensors_items)
  with 3 have "\<forall>item \<in> set r3. P item" by simp
  with 1 2 3 show ?thesis by (simp add: read_all_sensors_def)
qed

lemma read_all_sensors_names_parse: "names_parse (fst (read_all_sensors d net))"
proof -
  have "\<forall>item \<in> set (fst (read_all_sensors d net)).
          known_prefix (fst item) \<longrightarrow> \<not> isl (sensor_index (fst item))"
    by (rule read_all_sensors_items) (auto simp only: read_names sensor_names_parse fst_conv)
  then show ?thesis by (simp add: names_parse_def)
qed

subsection \<open>One step of the engine\<close>

lemma inject_failures_shape:
  assumes "inject_failures e = Inr e'"
  obtains net where "e' = e\<lparr>sensor_network := net\<rparr>"
    and "map_of (gates (sensor_network e)) 0 \<noteq> None \<Longrightarrow> map_of (gates net) 0 \<noteq> None"
    and "map_of (chargers (sensor_network e)) 0 \<noteq> None \<Longrightarrow> map_of (chargers net) 0 \<noteq> None"
    and "\<forall>g \<in> set (map snd (gates (sensor_network e))). \<not> is_open g \<Longrightarrow>
         \<forall>g \<in> set (map snd (gates net)). \<not> is_open g"
proof -
  let ?net0 = "sensor_network e"
  obtain net1 where n1: "(if failure_due (charger_failure_step (config e)) (current_step e) then
              (case map_of (chargers ?net0) 0 of
                 None \<Rightarrow> Inl KeyError
               | Some c \<Rightarrow>
                   Inr (?net0\<lparr>chargers := AList.update 0 (c\<lparr>charger_is_failed := True\<rparr>) (chargers ?net0)\<rparr>))
            else Inr ?net0) = Inr net1"
    using assms by (auto simp: inject_failures_def split: sum.splits)
  then have g1: "gates net1 = gates ?net0"
    and c1: "map_of (chargers ?net0) 0 \<noteq> None \<Longrightarrow> map_of (chargers net1) 0 \<noteq> None"
    by (auto simp: update_conv' split: if_splits option.splits)
  from assms n1 obtain net2 where e': "e' = e\<lparr>sensor_network := net2\<rparr>"
    and n2: "net2 = net1 \<or> (\<exists>g. map_of (gates net1) 0 = Some g \<and>
               net2 = net1\<lparr>gates := AList.update 0 (g\<lparr>gate_is_failed := True\<rparr>) (gates net1)\<rparr>)"
    by (auto simp: inject_failures_def split: if_splits option.splits)
  show ?thesis
  proof (rule that [OF e'])
    show "map_of (gates ?net0) 0 \<noteq> None \<Longrightarrow> map_of (gates net2) 0 \<noteq> None"
      using n2 g1 by (auto simp: update_conv')
    show "map_of (chargers ?net0) 0 \<noteq> None \<Longrightarrow> map_of (chargers net2) 0 \<noteq> None"
      using n2 c1 by auto
    show "\<forall>g \<in> set (map snd (gates net2)). \<not> is_open g"
      if closed: "\<forall>g \<in> set (map snd (gates ?net0)). \<not> is_open g"
    proof -
      from n2 show ?thesis
      proof
        assume "net2 = net1"
        with g1 closed show ?thesis by simp
      next
        assume "\<exists>g. map_of (gates net1) 0 = Some g \<and>
               net2 = net1\<lparr>gates := AList.update 0 (g\<lparr>gate_is_failed := True\<rparr>) (gates net1)\<rparr>"
        then obtain g where g: "map_of (gates net1) 0 = Some g"
          and net2: "net2 = net1\<lparr>gates := AList.update 0 (g\<lparr>gate_is_failed := True\<rparr>) (gates net1)\<rparr>"
          by blast
        from closed g1 have cl1: "\<forall>g \<in> set (map snd (gates net1)). \<not> is_open g" by simp
        from cl1 g have "\<not> is_open g" by (rule map_of_all)
        then have "\<not> is_open (g\<lparr>gate_is_failed := True\<rparr>)" by simp
        with cl1 have "\<forall>x \<in> set (map snd (AList.update 0 (g\<lparr>gate_is_failed := True\<rparr>) (gates net1))). \<not> is_open x"
          by (rule update_all)
        with net2 show ?thesis by simp
      qed
    qed
  qed
qed

lemma inject_failures_ok:
  assumes "failure_targets_exist e"
  shows "\<exists>e'. inject_failures e = Inr e'"
proof -
  from assms have c: "failure_due (charger_failure_step (config e)) (current_step e) \<Longrightarrow>
      map_of (chargers (sensor_network e)) 0 \<noteq> None"
    and g: "failure_due (gate_failure_step (config e)) (current_step e) \<Longrightarrow>
      map_of (gates (sensor_network e)) 0 \<noteq> None"
    by (auto simp: failure_targets_exist_def failure_due_def split: option.splits)
  show ?thesis
    using c g by (auto simp: inject_failures_def split: option.splits)
qed

text \<open>What a successful \<open>run_step\<close> has done, piece by piece.\<close>

lemma run_step_shape:
  assumes "run_step inp e = Inr (r, e')"
  obtains e1 e2 sensor_readings vm ctl acts where
    "inject_failures (e\<lparr>current_step := current_step e + 1\<rparr>) = Inr e1"
    and "e2 = generate_vehicles (arrival_draw inp) (new_vehicle_id inp) e1"
    and "sensor_readings = fst (read_all_sensors (sensor_draws inp) (sensor_network e1))"
    and "process_step sensor_readings (update_all_vehicles (vehicle_manager e2))
            (engine_controller e1) (current_step e + 1) = Inr (vm, ctl, acts)"
    and "e' = e2\<lparr>sensor_network := snd (read_all_sensors (sensor_draws inp) (sensor_network e1)),
                 vehicle_manager := vm, engine_controller := ctl,
                 faults_detected := faults_detected e @ detect_faults sensor_readings vm (current_step e + 1),
                 db_control_actions := db_control_actions e @ acts\<rparr>"
    and "res_faults r = length (detect_faults sensor_readings vm (current_step e + 1))"
    and "res_control_actions r = length acts"
    and "res_vehicles r = length (vehicles vm)"
proof -
  from assms obtain e1 where 1: "inject_failures (e\<lparr>current_step := current_step e + 1\<rparr>) = Inr e1"
    by (auto simp: run_step_def split: sum.splits)
  then obtain net where e1: "e1 = e\<lparr>current_step := current_step e + 1, sensor_network := net\<rparr>"
    by (rule inject_failures_shape) blast
  let ?e2 = "generate_vehicles (arrival_draw inp) (new_vehicle_id inp) e1"
  have e2: "sensor_network ?e2 = sensor_network e1" "engine_controller ?e2 = engine_controller e1"
    "current_step ?e2 = current_step e + 1" "faults_detected ?e2 = faults_detected e"
    "db_control_actions ?e2 = db_control_actions e"
    by (simp_all add: generate_vehicles_def e1)
  obtain rs net' where rd: "read_all_sensors (sensor_draws inp) (sensor_network e1) = (rs, net')"
    by (cases "read_all_sensors (sensor_draws inp) (sensor_network e1)")
  from assms 1 rd e2 obtain vm ctl acts where
    p: "process_step rs (update_all_vehicles (vehicle_manager ?e2)) (engine_controller e1)
           (current_step e + 1) = Inr (vm, ctl, acts)"
    by (auto simp: run_step_def Let_def split: sum.splits prod.splits)
  from assms 1 rd e2 p have
    "e' = ?e2\<lparr>sensor_network := net', vehicle_manager := vm, engine_controller := ctl,
                 faults_detected := faults_detected e @ detect_faults rs vm (current_step e + 1),
                 db_control_actions := db_control_actions e @ acts\<rparr>"
    and "res_faults r = length (detect_faults rs vm (current_step e + 1))"
    and "res_control_actions r = length acts"
    and "res_vehicles r = length (vehicles vm)"
    by (auto simp: run_step_def Let_def)
  with 1 p rd show ?thesis by (intro that [of e1 ?e2 rs vm ctl acts]) simp_all
qed

lemma run_step_counters:
  assumes "run_step inp e = Inr (r, e')"
  shows "current_step e' = current_step e + 1" and "config e' = config e"
    and "length (faults_detected e') = length (faults_detected e) + res_faults r"
proof -
  from assms obtain e1 e2 sensor_readings vm ctl acts where
    1: "inject_failures (e\<lparr>current_step := current_step e + 1\<rparr>) = Inr e1"
    and 2: "e2 = generate_vehicles (arrival_draw inp) (new_vehicle_id inp) e1"
    and 5: "e' = e2\<lparr>sensor_network := snd (read_all_sensors (sensor_draws inp) (sensor_network e1)),
                 vehicle_manager := vm, engine_controller := ctl,
                 faults_detected := faults_detected e @ detect_faults sensor_readings vm (current_step e + 1),
                 db_control_actions := db_control_actions e @ acts\<rparr>"
    and 6: "res_faults r = length (detect_faults sensor_readings vm (current_step e + 1))"
    by (rule run_step_shape) blast
  from 1 obtain net where e1: "e1 = e\<lparr>current_step := current_step e + 1, sensor_network := net\<rparr>"
    by (rule inject_failures_shape) blast
  from 2 5 6 e1 show "current_step e' = current_step e + 1" and "config e' = config e"
    and "length (faults_detected e') = length (faults_detected e) + res_faults r"
    by (simp_all add: generate_vehicles_def)
qed

subsection \<open>No step of a well-formed engine raises\<close>

lemma generate_vehicles_chargers:
  assumes "chargers_known (vehicle_manager e) ds"
  shows "chargers_known (vehicle_manager (generate_vehicles draw new_id e)) ds"
proof -
  have "charger_ok ds (create_new new_id now)" for now
    by (simp add: charger_ok_def create_new_def)
  with assms have "\<forall>v \<in> set (map snd (AList.update k (create_new new_id now) (vehicles (vehicle_manager e)))).
      charger_ok ds v" for k now
    unfolding chargers_known_def by (rule update_all)
  with assms show ?thesis
    by (simp add: generate_vehicles_def add_vehicle_def chargers_known_def)
qed

lemma update_all_vehicles_chargers:
  assumes "chargers_known vm ds"
  shows "chargers_known (update_all_vehicles vm) ds"
proof -
  have "charger_ok ds (update_charge rate v) = charger_ok ds v" for rate v
    by (simp add: charger_ok_def update_charge_def)
  with assms show ?thesis
    by (auto simp: chargers_known_def update_all_vehicles_def)
qed

lemma read_all_sensors_keys:
  "map_of (gates net) i \<noteq> None \<Longrightarrow> map_of (gates (snd (read_all_sensors d net))) i \<noteq> None"
  "map_of (chargers net) i \<noteq> None \<Longrightarrow> map_of (chargers (snd (read_all_sensors d net))) i \<noteq> None"
  by (simp_all add: read_all_sensors_gates read_all_sensors_chargers map_of_read)

lemma run_step_ok:
  assumes "engine_wf e"
  shows "\<exists>r e'. run_step inp e = Inr (r, e') \<and> engine_wf e'"
proof -
  let ?e0 = "e\<lparr>current_step := current_step e + 1\<rparr>"
  from assms have keys: "controller_keys (engine_controller e)"
    and known: "chargers_known (vehicle_manager e) (depot_state (engine_controller e))"
    and targets: "failure_targets_exist e"
    by (simp_all add: engine_wf_def)
  from targets have "failure_targets_exist ?e0" by (simp add: failure_targets_exist_def)
  then obtain e1 where 1: "inject_failures ?e0 = Inr e1" using inject_failures_ok by blast
  then obtain net where e1: "e1 = ?e0\<lparr>sensor_network := net\<rparr>"
    and g: "map_of (gates (sensor_network ?e0)) 0 \<noteq> None \<Longrightarrow> map_of (gates net) 0 \<noteq> None"
    and c: "map_of (chargers (sensor_network ?e0)) 0 \<noteq> None \<Longrightarrow> map_of (chargers net) 0 \<noteq> None"
    by (rule inject_failures_shape) blast
  let ?e2 = "generate_vehicles (arrival_draw inp) (new_vehicle_id inp) e1"
  obtain rs net' where rd: "read_all_sensors (sensor_draws inp) (sensor_network e1) = (rs, net')"
    by (cases "read_all_sensors (sensor_draws inp) (sensor_network e1)")
  then have rs: "rs = fst (read_all_sensors (sensor_draws inp) (sensor_network e1))"
    and net': "net' = snd (read_all_sensors (sensor_draws inp) (sensor_network e1))"
    by simp_all
  have names: "names_parse rs" unfolding rs by (rule read_all_sensors_names_parse)
  let ?vm1 = "update_all_vehicles (vehicle_manager ?e2)"
  from known e1 have "chargers_known (vehicle_manager e1) (depot_state (engine_controller e))"
    by simp
  then have "chargers_known (vehicle_manager ?e2) (depot_state (engine_controller e))"
    by (rule generate_vehicles_chargers)
  then have known1: "chargers_known ?vm1 (depot_state (engine_controller e))"
    by (rule update_all_vehicles_chargers)
  have e2: "engine_controller ?e2 = engine_controller e" "sensor_network ?e2 = sensor_network e1"
    "config ?e2 = config e"
    by (simp_all add: generate_vehicles_def e1)
  from process_step_ok [OF names keys known1, of "current_step ?e2"]
  obtain vm ctl acts where p: "process_step rs ?vm1 (engine_controller ?e2) (current_step ?e2) = Inr (vm, ctl, acts)"
    and k2: "controller_keys ctl" and c2: "chargers_known vm (depot_state ctl)"
    unfolding e2 by blast
  let ?faults = "detect_faults rs vm (current_step ?e2)"
  let ?e' = "?e2\<lparr>sensor_network := net', vehicle_manager := vm, engine_controller := ctl,
                  faults_detected := faults_detected ?e2 @ ?faults,
                  db_control_actions := db_control_actions ?e2 @ acts\<rparr>"
  have run: "\<exists>r. run_step inp e = Inr (r, ?e')"
    using 1 p rd e2(2) by (simp add: run_step_def Let_def)
  have n1: "sensor_network e1 = net" by (simp add: e1)
  have tg: "map_of (gates (sensor_network e)) 0 \<noteq> None \<Longrightarrow> map_of (gates net') 0 \<noteq> None"
    unfolding net' n1 using g by (intro read_all_sensors_keys) simp
  have tc: "map_of (chargers (sensor_network e)) 0 \<noteq> None \<Longrightarrow> map_of (chargers net') 0 \<noteq> None"
    unfolding net' n1 using c by (intro read_all_sensors_keys) simp
  have fin: "config ?e' = config e" "sensor_network ?e' = net'" by (simp_all add: e2)
  have "failure_targets_exist ?e'"
    unfolding failure_targets_exist_def fin
    using targets tg tc unfolding failure_targets_exist_def by blast
  with k2 c2 have "engine_wf ?e'" by (simp add: engine_wf_def)
  with run show ?thesis by blast
qed

lemma map_of_range:
  "map_of (map (\<lambda>i. (i, f i)) xs) k = (if k \<in> set xs then Some (f k) else None)"
  by (induction xs) auto

lemma zero_in_range_py: "0 < n \<Longrightarrow> 0 \<in> set (range_py n)"
  by (auto simp: range_py_def image_iff intro!: bexI [of _ 0])

lemma engine_init_wf:
  assumes "config_ok cfg"
  shows "engine_wf (SimulationEngine_init cfg)"
proof -
  have "controller_keys (DepotController_init g s c)" for g s c
    by (simp add: controller_keys_def DepotController_init_def map_of_range)
  moreover have "chargers_known VehicleManager_init ds" for ds
    by (simp add: chargers_known_def VehicleManager_init_def)
  moreover have "failure_targets_exist (SimulationEngine_init cfg)"
    using assms
    by (auto simp: failure_targets_exist_def config_ok_def SimulationEngine_init_def
        SensorNetwork_init_def map_of_range zero_in_range_py)
  ultimately show ?thesis by (simp add: engine_wf_def SimulationEngine_init_def)
qed

lemma run_steps_ok:
  assumes "engine_wf e"
  shows "\<exists>e'. run_steps n inputs e = Inr e' \<and> engine_wf e'"
proof (induction n)
  case 0
  from assms show ?case by simp
next
  case (Suc n)
  then obtain e1 where 1: "run_steps n inputs e = Inr e1" and w1: "engine_wf e1" by blast
  from run_step_ok [OF w1, of "inputs n"] obtain r e2 where
    "run_step (inputs n) e1 = Inr (r, e2)" and "engine_wf e2" by blast
  with 1 show ?case by simp
qed

lemma run_loop_ok:
  assumes "engine_wf e"
  shows "\<exists>results' e'. run_loop n inputs i e results = Inr (results', e')"
  using assms
proof (induction n arbitrary: i e results)
  case 0
  show ?case by simp
next
  case (Suc n)
  from run_step_ok [OF Suc.prems, of "inputs i"] obtain r e1 where
    1: "run_step (inputs i) e = Inr (r, e1)" and w1: "engine_wf e1" by blast
  from Suc.IH [OF w1, of "Suc i" "results @ [r]"] 1 show ?case by auto
qed

section \<open>Sensor names in the readings\<close>

lemma split_py_nonempty: "split_py c s \<noteq> []"
  by (induction s) (auto split: list.splits)

lemma py_int_cases: "py_int w = Inl ValueError \<or> (\<exists>i. py_int w = Inr i)"
  by (auto simp: py_int_def split: list.splits option.splits)

lemma sensor_index_known:
  assumes "known_prefix name"
  shows "sensor_index name = Inl ValueError \<or> (\<exists>i. sensor_index name = Inr i)"
proof -
  have *: "sensor_index (p @ CHR ''_'' # s) = Inl ValueError \<or> (\<exists>i. sensor_index (p @ CHR ''_'' # s) = Inr i)"
    if "CHR ''_'' \<notin> set p" for p s
  proof -
    obtain w ws where ws: "split_py CHR ''_'' s = w # ws"
      using split_py_nonempty [of "CHR ''_''" s] by (cases "split_py CHR ''_'' s") auto
    have "split_py CHR ''_'' (p @ CHR ''_'' # s) = p # w # ws"
      using that ws by (induction p) auto
    then show ?thesis using py_int_cases [of w] by (simp add: sensor_index_def)
  qed
  from assms consider "startswith name ''gate_''" | "startswith name ''spot_''"
    | "startswith name ''charger_''" by (auto simp: known_prefix_def)
  then show ?thesis
  proof cases
    case 1
    then have "take (length ''gate_'') name = ''gate_''" unfolding startswith_def .
    then have "name = ''gate_'' @ drop (length ''gate_'') name"
      by (metis append_take_drop_id)
    then obtain s where "name = ''gate'' @ CHR ''_'' # s" by simp
    with * [of "''gate''" s] show ?thesis by simp
  next
    case 2
    then have "take (length ''spot_'') name = ''spot_''" unfolding startswith_def .
    then have "name = ''spot_'' @ drop (length ''spot_'') name"
      by (metis append_take_drop_id)
    then obtain s where "name = ''spot'' @ CHR ''_'' # s" by simp
    with * [of "''spot''" s] show ?thesis by simp
  next
    case 3
    then have "take (length ''charger_'') name = ''charger_''" unfolding startswith_def .
    then have "name = ''charger_'' @ drop (length ''charger_'') name"
      by (metis append_take_drop_id)
    then obtain s where "name = ''charger'' @ CHR ''_'' # s" by simp
    with * [of "''charger''" s] show ?thesis by simp
  qed
qed

lemma update_reading_raises:
  assumes "known_prefix (fst item)" and "isl (sensor_index (fst item))"
  shows "update_reading item ds = Inl ValueError"
proof -
  from sensor_index_known [OF assms(1)] assms(2)
  have "sensor_index (fst item) = Inl ValueError" by auto
  with assms(1) show ?thesis
    by (cases item) (auto simp: update_reading_def known_prefix_def)
qed

lemma update_depot_state_raises:
  assumes "\<not> names_parse sensor_readings"
  shows "update_depot_state sensor_readings ds = Inl ValueError"
  using assms
proof (induction sensor_readings arbitrary: ds)
  case Nil
  then show ?case by (simp add: names_parse_def)
next
  case (Cons item rest)
  show ?case
  proof (cases "known_prefix (fst item) \<and> isl (sensor_index (fst item))")
    case True
    then show ?thesis by (simp add: update_reading_raises)
  next
    case False
    with Cons.prems have rest: "\<not> names_parse rest" by (auto simp: names_parse_def)
    from False obtain ds1 where "update_reading item ds = Inr ds1"
      using update_reading_ok [of item ds] by blast
    with Cons.IH [OF rest, of ds1] show ?thesis by simp
  qed
qed

text \<open>
  Claim C8, as stated, fails: a readings dict whose only entry is named \<open>gate_abc\<close>
  makes \<open>process_step\<close> raise \<open>ValueError\<close> (from \<open>int("abc")\<close>), on a
  controller for two gates, one spot and one charger and a registry of two vehicles.
\<close>

theorem process_step_malformed_name:
  "process_step readings_bad_ex vm_ex ctl_ex 1 = Inl ValueError"
  by code_simp

text \<open>
  Claim C8, amended. Take a readings dict whose names have at most 640 characters. If
  every name that starts with \<open>gate_\<close>, \<open>spot_\<close> or \<open>charger_\<close> has, between its
  first underscore and the next (or the end), an integer as \<open>int\<close> reads it (blanks
  around it and one sign allowed), then \<open>_update_depot_state\<close> completes from any
  depot state, and the whole \<open>process_step\<close> completes when the controller has an
  entry for each of its devices and for every charger a vehicle holds. If some such
  name, of any length, has no integer there, both raise \<open>ValueError\<close>. In either case
  the entries whose names have none of the three prefixes are ignored: the outcome is
  that of the dict without them.
\<close>

theorem process_step_names:
  "(names_parse sensor_readings \<and> names_short sensor_readings \<longrightarrow>
      (\<exists>ds'. update_depot_state sensor_readings ds = Inr ds') \<and>
      (controller_keys ctl \<and> chargers_known vm (depot_state ctl) \<longrightarrow>
         (\<exists>res. process_step sensor_readings vm ctl now = Inr res))) \<and>
   (\<not> names_parse sensor_readings \<longrightarrow>
      update_depot_state sensor_readings ds = Inl ValueError \<and>
      process_step sensor_readings vm ctl now = Inl ValueError) \<and>
   update_depot_state sensor_readings ds =
     update_depot_state (filter (\<lambda>item. known_prefix (fst item)) sensor_readings) ds \<and>
   process_step sensor_readings vm ctl now =
     process_step (filter (\<lambda>item. known_prefix (fst item)) sensor_readings) vm ctl now"
proof (intro conjI impI)
  assume "names_parse sensor_readings \<and> names_short sensor_readings"
  then show "\<exists>ds'. update_depot_state sensor_readings ds = Inr ds'"
    using update_depot_state_ok [of sensor_readings ds] by blast
next
  assume "names_parse sensor_readings \<and> names_short sensor_readings"
    and "controller_keys ctl \<and> chargers_known vm (depot_state ctl)"
  then show "\<exists>res. process_step sensor_readings vm ctl now = Inr res"
    using process_step_ok [of sensor_readings ctl vm now] by blast
next
  assume bad: "\<not> names_parse sensor_readings"
  then show "update_depot_state sensor_readings ds = Inl ValueError"
    by (rule update_depot_state_raises)
  from bad have "update_depot_state sensor_readings (depot_state ctl) = Inl ValueError"
    by (rule update_depot_state_raises)
  then show "process_step sensor_readings vm ctl now = Inl ValueError"
    by (simp add: process_step_def)
next
  show "update_depot_state sensor_readings ds =
     update_depot_state (filter (\<lambda>item. known_prefix (fst item)) sensor_readings) ds"
    by (rule update_depot_state_ignores_unknown)
next
  show "process_step sensor_readings vm ctl now =
     process_step (filter (\<lambda>item. known_prefix (fst item)) sensor_readings) vm ctl now"
    unfolding process_step_def
    by (subst update_depot_state_ignores_unknown) (rule refl)
qed

theorem process_step_names_witness:
  "names_parse readings_ok_ex \<and> names_short readings_ok_ex \<and> controller_keys ctl_ex \<and>
   chargers_known vm_ex (depot_state ctl_ex) \<and>
   \<not> isl (process_step readings_ok_ex vm_ex ctl_ex 1) \<and>
   process_step readings_ok_ex vm_ex ctl_ex 1 =
     process_step [(''gate_0'', gate_reading_ex ''gate_0'' True)] vm_ex ctl_ex 1 \<and>
   names_parse readings_nbsp_ex \<and> names_short readings_nbsp_ex \<and>
   \<not> isl (process_step readings_nbsp_ex vm_ex ctl_ex 1) \<and>
   \<not> names_parse readings_us_ex \<and>
   process_step readings_us_ex vm_ex ctl_ex 1 = Inl ValueError \<and>
   \<not> names_parse [(''spot_'', gate_reading_ex ''spot_'' False)] \<and>
   update_depot_state [(''spot_'', gate_reading_ex ''spot_'' False)] (depot_state ctl_ex) =
     Inl ValueError"
proof -
  have ok: "names_parse readings_ok_ex" "names_short readings_ok_ex" "controller_keys ctl_ex"
    "chargers_known vm_ex (depot_state ctl_ex)" by code_simp+
  have nbsp: "names_parse readings_nbsp_ex" "names_short readings_nbsp_ex" by code_simp+
  have us: "\<not> names_parse readings_us_ex" by code_simp
  have bad: "\<not> names_parse [(''spot_'', gate_reading_ex ''spot_'' False)]" by code_simp
  have flt: "filter (\<lambda>item. known_prefix (fst item)) readings_ok_ex =
      [(''gate_0'', gate_reading_ex ''gate_0'' True)]" by code_simp
  from process_step_names [of readings_ok_ex "depot_state ctl_ex" ctl_ex vm_ex 1]
    process_step_names [of readings_nbsp_ex "depot_state ctl_ex" ctl_ex vm_ex 1]
    process_step_names [of readings_us_ex "depot_state ctl_ex" ctl_ex vm_ex 1]
    process_step_names [of "[(''spot_'', gate_reading_ex ''spot_'' False)]" "depot_state ctl_ex" ctl_ex vm_ex 1]
    ok nbsp us bad flt
  show ?thesis by auto
qed

section \<open>Charge levels\<close>

lemma update_charge_facts:
  "state v \<noteq> CHARGING \<Longrightarrow> update_charge rate v = v"
  "state v = CHARGING \<Longrightarrow> charge_level (update_charge rate v) = min 1 (charge_level v + rate)"
  "0 \<le> rate \<Longrightarrow> charge_level v \<le> 1 \<Longrightarrow> charge_level v \<le> charge_level (update_charge rate v)"
  "0 \<le> rate \<Longrightarrow> 0 \<le> charge_level v \<Longrightarrow> charge_level v \<le> 1 \<Longrightarrow>
     0 \<le> charge_level (update_charge rate v) \<and> charge_level (update_charge rate v) \<le> 1"
  by (auto simp: update_charge_def)

lemma snd_map_values: "map snd (map (\<lambda>(k, v). (k, f v)) xs) = map f (map snd xs)"
  by (induction xs) auto

lemma charges_in_range_frame:
  assumes "frame vm' = frame vm"
  shows "charges_in_range vm' = charges_in_range vm"
proof -
  have "map charge_level (map snd (vehicles m)) = map (\<lambda>x. fst (snd x)) (map snd (frame m))" for m
    unfolding frame_def snd_map_values by (simp add: fproj_def)
  note eq = this
  have r: "charges_in_range m \<longleftrightarrow>
      list_all (\<lambda>c. 0 \<le> c \<and> c \<le> 1) (map charge_level (map snd (vehicles m)))" for m
    by (simp add: charges_in_range_def list_all_iff)
  show ?thesis unfolding r eq assms ..
qed

lemma update_all_vehicles_range:
  assumes "charges_in_range vm"
  shows "charges_in_range (update_all_vehicles vm)"
proof -
  have *: "0 \<le> charge_level (update_charge 0.05 v) \<and> charge_level (update_charge 0.05 v) \<le> 1"
    if "0 \<le> charge_level v \<and> charge_level v \<le> 1" for v
    using that by (simp add: update_charge_def)
  show ?thesis unfolding charges_in_range_def
  proof
    fix v' assume "v' \<in> set (map snd (vehicles (update_all_vehicles vm)))"
    then obtain v where v: "v \<in> set (map snd (vehicles vm))" and v': "v' = update_charge 0.05 v"
      by (force simp: update_all_vehicles_def)
    from assms v have "0 \<le> charge_level v \<and> charge_level v \<le> 1"
      unfolding charges_in_range_def by blast
    then show "0 \<le> charge_level v' \<and> charge_level v' \<le> 1" unfolding v' by (rule *)
  qed
qed

lemma generate_vehicles_range:
  assumes "charges_in_range (vehicle_manager e)"
  shows "charges_in_range (vehicle_manager (generate_vehicles draw new_id e))"
proof -
  have "0 \<le> charge_level (create_new new_id now) \<and> charge_level (create_new new_id now) \<le> 1" for now
    by (simp add: create_new_def)
  with assms have "\<forall>v \<in> set (map snd (AList.update k (create_new new_id now) (vehicles (vehicle_manager e)))).
      0 \<le> charge_level v \<and> charge_level v \<le> 1" for k now
    unfolding charges_in_range_def by (rule update_all)
  with assms show ?thesis
    by (simp add: generate_vehicles_def add_vehicle_def charges_in_range_def)
qed

text \<open>
  What a step does to the registry and the controller, whenever it returns: the
  controller only writes the fields outside the frame.
\<close>

lemma run_step_state:
  assumes step: "run_step inp e = Inr (r, e')"
    and keys: "controller_keys (engine_controller e)"
    and known: "chargers_known (vehicle_manager e) (depot_state (engine_controller e))"
  shows "controller_keys (engine_controller e')"
    and "chargers_known (vehicle_manager e') (depot_state (engine_controller e'))"
    and "frame (vehicle_manager e') =
         frame (update_all_vehicles (vehicle_manager
           (generate_vehicles (arrival_draw inp) (new_vehicle_id inp)
              (e\<lparr>current_step := current_step e + 1\<rparr>))))"
proof -
  from step obtain e1 e2 sensor_readings vm ctl acts where
    1: "inject_failures (e\<lparr>current_step := current_step e + 1\<rparr>) = Inr e1"
    and 2: "e2 = generate_vehicles (arrival_draw inp) (new_vehicle_id inp) e1"
    and 3: "sensor_readings = fst (read_all_sensors (sensor_draws inp) (sensor_network e1))"
    and 4: "process_step sensor_readings (update_all_vehicles (vehicle_manager e2))
            (engine_controller e1) (current_step e + 1) = Inr (vm, ctl, acts)"
    and 5: "e' = e2\<lparr>sensor_network := snd (read_all_sensors (sensor_draws inp) (sensor_network e1)),
                 vehicle_manager := vm, engine_controller := ctl,
                 faults_detected := faults_detected e @ detect_faults sensor_readings vm (current_step e + 1),
                 db_control_actions := db_control_actions e @ acts\<rparr>"
    by (rule run_step_shape) blast
  from 1 obtain net where e1: "e1 = e\<lparr>current_step := current_step e + 1, sensor_network := net\<rparr>"
    by (rule inject_failures_shape) blast
  let ?g = "generate_vehicles (arrival_draw inp) (new_vehicle_id inp)"
  have vm_g: "vehicle_manager e2 = vehicle_manager (?g (e\<lparr>current_step := current_step e + 1\<rparr>))"
    by (simp add: 2 e1 generate_vehicles_def)
  have c1: "engine_controller e1 = engine_controller e" by (simp add: e1)
  have names: "names_parse sensor_readings" unfolding 3 by (rule read_all_sensors_names_parse)
  from known have "chargers_known (vehicle_manager e1) (depot_state (engine_controller e))"
    by (simp add: e1)
  then have "chargers_known (vehicle_manager e2) (depot_state (engine_controller e))"
    unfolding 2 by (rule generate_vehicles_chargers)
  then have known1: "chargers_known (update_all_vehicles (vehicle_manager e2)) (depot_state (engine_controller e))"
    by (rule update_all_vehicles_chargers)
  from process_step_ok [OF names keys known1, of "current_step e + 1"] 4 c1
  have "frame vm = frame (update_all_vehicles (vehicle_manager e2))"
    and "controller_keys ctl" and "chargers_known vm (depot_state ctl)"
    by auto
  with 5 vm_g show "controller_keys (engine_controller e')"
    and "chargers_known (vehicle_manager e') (depot_state (engine_controller e'))"
    and "frame (vehicle_manager e') =
         frame (update_all_vehicles (vehicle_manager (?g (e\<lparr>current_step := current_step e + 1\<rparr>))))"
    by simp_all
qed

lemma run_step_range:
  assumes "run_step inp e = Inr (r, e')"
    and "controller_keys (engine_controller e)"
    and "chargers_known (vehicle_manager e) (depot_state (engine_controller e))"
    and "charges_in_range (vehicle_manager e)"
  shows "charges_in_range (vehicle_manager e')"
proof -
  let ?e0 = "e\<lparr>current_step := current_step e + 1\<rparr>"
  from assms(4) have "charges_in_range (vehicle_manager ?e0)" by simp
  then have "charges_in_range (vehicle_manager
      (generate_vehicles (arrival_draw inp) (new_vehicle_id inp) ?e0))"
    by (rule generate_vehicles_range)
  then have "charges_in_range (update_all_vehicles (vehicle_manager
      (generate_vehicles (arrival_draw inp) (new_vehicle_id inp) ?e0)))"
    by (rule update_all_vehicles_range)
  moreover from run_step_state(3) [OF assms(1-3)]
  have "charges_in_range (vehicle_manager e') =
      charges_in_range (update_all_vehicles (vehicle_manager
        (generate_vehicles (arrival_draw inp) (new_vehicle_id inp) ?e0)))"
    by (rule charges_in_range_frame)
  ultimately show ?thesis by simp
qed

lemma reachable_state:
  assumes "run_steps n inputs (SimulationEngine_init cfg) = Inr e"
  shows "controller_keys (engine_controller e) \<and>
         chargers_known (vehicle_manager e) (depot_state (engine_controller e)) \<and>
         charges_in_range (vehicle_manager e)"
  using assms
proof (induction n arbitrary: e)
  case 0
  then have e: "e = SimulationEngine_init cfg" by simp
  have "controller_keys (DepotController_init g s c)" for g s c
    by (simp add: controller_keys_def DepotController_init_def map_of_range)
  then show ?case
    by (simp add: e SimulationEngine_init_def chargers_known_def charges_in_range_def
        VehicleManager_init_def)
next
  case (Suc n)
  from Suc.prems obtain e1 r where 1: "run_steps n inputs (SimulationEngine_init cfg) = Inr e1"
    and 2: "run_step (inputs n) e1 = Inr (r, e)"
    by (auto split: sum.splits)
  from Suc.IH [OF 1] have k: "controller_keys (engine_controller e1)"
    and c: "chargers_known (vehicle_manager e1) (depot_state (engine_controller e1))"
    and g: "charges_in_range (vehicle_manager e1)" by simp_all
  from run_step_state(1,2) [OF 2 k c] run_step_range [OF 2 k c g] show ?case by simp
qed

lemma map_of_frame: "map_of (frame vm) k = map_option fproj (map_of (vehicles vm) k)"
  by (simp add: frame_def map_of_map)

text \<open>
  Claim C6. In every state that a run of the engine reaches from its constructor,
  every registered vehicle has its charge level in the closed interval from 0 to 1.
  And over any further step from such a state, a vehicle that is registered before the
  step (and is not replaced in the registry by an arrival drawing the same id) is
  registered after it with a charge level that has not decreased if its state was
  CHARGING (it is the old level plus 0.05, capped at 1), and that is unchanged if its
  state was anything else. Charge levels are floats in the source and reals here.
\<close>

theorem charge_level_invariant:
  assumes "run_steps n inputs (SimulationEngine_init cfg) = Inr e"
  shows "(\<forall>v \<in> set (map snd (vehicles (vehicle_manager e))).
            0 \<le> charge_level v \<and> charge_level v \<le> 1) \<and>
         (\<forall>inp r e' k v.
            run_step inp e = Inr (r, e') \<and> map_of (vehicles (vehicle_manager e)) k = Some v \<and>
            \<not> (arrival_draw inp < vehicle_arrival_rate (config e) \<and> new_vehicle_id inp = k) \<longrightarrow>
            (\<exists>v'. map_of (vehicles (vehicle_manager e')) k = Some v' \<and>
               (state v = CHARGING \<longrightarrow>
                  charge_level v \<le> charge_level v' \<and>
                  charge_level v' = min 1 (charge_level v + 0.05)) \<and>
               (state v \<noteq> CHARGING \<longrightarrow> charge_level v' = charge_level v)))"
proof (intro conjI allI impI)
  from reachable_state [OF assms] have k: "controller_keys (engine_controller e)"
    and c: "chargers_known (vehicle_manager e) (depot_state (engine_controller e))"
    and g: "charges_in_range (vehicle_manager e)" by simp_all
  from g show "\<forall>v \<in> set (map snd (vehicles (vehicle_manager e))).
            0 \<le> charge_level v \<and> charge_level v \<le> 1"
    by (simp only: charges_in_range_def)
  fix inp r e' k v
  assume a: "run_step inp e = Inr (r, e') \<and> map_of (vehicles (vehicle_manager e)) k = Some v \<and>
            \<not> (arrival_draw inp < vehicle_arrival_rate (config e) \<and> new_vehicle_id inp = k)"
  let ?vm_g = "vehicle_manager (generate_vehicles (arrival_draw inp) (new_vehicle_id inp)
                 (e\<lparr>current_step := current_step e + 1\<rparr>))"
  from a have "map_of (vehicles ?vm_g) k = Some v"
    by (auto simp: generate_vehicles_def add_vehicle_def update_conv' create_new_def)
  then have "map_of (vehicles (update_all_vehicles ?vm_g)) k = Some (update_charge 0.05 v)"
    by (simp add: update_all_vehicles_def map_of_map)
  then have "map_of (frame (update_all_vehicles ?vm_g)) k = Some (fproj (update_charge 0.05 v))"
    by (simp add: map_of_frame)
  with a run_step_state(3) [OF _ k c, of inp r e']
  have "map_of (frame (vehicle_manager e')) k = Some (fproj (update_charge 0.05 v))" by simp
  then obtain v' where v': "map_of (vehicles (vehicle_manager e')) k = Some v'"
    and f: "fproj v' = fproj (update_charge 0.05 v)"
    by (auto simp: map_of_frame)
  from f have cl: "charge_level v' = charge_level (update_charge 0.05 v)" by (simp add: fproj_def)
  from a have "map_of (vehicles (vehicle_manager e)) k = Some v" by simp
  with g [unfolded charges_in_range_def]
  have "0 \<le> charge_level v \<and> charge_level v \<le> 1" by (rule map_of_all)
  then have le1: "charge_level v \<le> 1" by simp
  have "state v = CHARGING \<longrightarrow>
          charge_level v \<le> charge_level v' \<and> charge_level v' = min 1 (charge_level v + 0.05)"
    using cl le1 by (simp add: update_charge_def)
  moreover have "state v \<noteq> CHARGING \<longrightarrow> charge_level v' = charge_level v"
    using cl by (simp add: update_charge_def)
  ultimately show "\<exists>v'. map_of (vehicles (vehicle_manager e')) k = Some v' \<and>
               (state v = CHARGING \<longrightarrow>
                  charge_level v \<le> charge_level v' \<and>
                  charge_level v' = min 1 (charge_level v + 0.05)) \<and>
               (state v \<noteq> CHARGING \<longrightarrow> charge_level v' = charge_level v)"
    using v' by blast
qed

theorem charge_level_invariant_witness:
  "case run_steps 3 two_arrivals (SimulationEngine_init cfg_two_spots) of
     Inl x \<Rightarrow> False
   | Inr e \<Rightarrow>
       (\<forall>v \<in> set (map snd (vehicles (vehicle_manager e))).
          0 \<le> charge_level v \<and> charge_level v \<le> 1) \<and>
       \<not> (arrival_draw (two_arrivals 3) < vehicle_arrival_rate (config e) \<and>
          new_vehicle_id (two_arrivals 3) = ''a'') \<and>
       (case run_step (two_arrivals 3) e of
          Inl x \<Rightarrow> False
        | Inr (r, e') \<Rightarrow>
            (\<exists>v v'. map_of (vehicles (vehicle_manager e)) ''a'' = Some v \<and> state v = CHARGING \<and>
               map_of (vehicles (vehicle_manager e')) ''a'' = Some v' \<and>
               charge_level v \<le> charge_level v' \<and>
               charge_level v' = min 1 (charge_level v + 0.05)))"
proof -
  have "case run_steps 3 two_arrivals (SimulationEngine_init cfg_two_spots) of
     Inl x \<Rightarrow> False
   | Inr e \<Rightarrow>
       (case map_of (vehicles (vehicle_manager e)) ''a'' of
          None \<Rightarrow> False | Some v \<Rightarrow> state v = CHARGING) \<and>
       \<not> (arrival_draw (two_arrivals 3) < vehicle_arrival_rate (config e) \<and>
          new_vehicle_id (two_arrivals 3) = ''a'') \<and>
       (case run_step (two_arrivals 3) e of Inl x \<Rightarrow> False | Inr p \<Rightarrow> True)"
    by code_simp
  then obtain e v r e' where e: "run_steps 3 two_arrivals (SimulationEngine_init cfg_two_spots) = Inr e"
    and v: "map_of (vehicles (vehicle_manager e)) ''a'' = Some v" "state v = CHARGING"
    and fresh: "\<not> (arrival_draw (two_arrivals 3) < vehicle_arrival_rate (config e) \<and>
          new_vehicle_id (two_arrivals 3) = ''a'')"
    and step: "run_step (two_arrivals 3) e = Inr (r, e')"
    by (auto split: sum.splits option.splits)
  from charge_level_invariant [OF e]
  have range: "\<forall>v \<in> set (map snd (vehicles (vehicle_manager e))).
          0 \<le> charge_level v \<and> charge_level v \<le> 1"
    and mono: "\<exists>v'. map_of (vehicles (vehicle_manager e')) ''a'' = Some v' \<and>
               (state v = CHARGING \<longrightarrow>
                  charge_level v \<le> charge_level v' \<and>
                  charge_level v' = min 1 (charge_level v + 0.05)) \<and>
               (state v \<noteq> CHARGING \<longrightarrow> charge_level v' = charge_level v)"
    using step v(1) fresh by blast+
  from mono v(2) obtain v' where "map_of (vehicles (vehicle_manager e')) ''a'' = Some v'"
    and "charge_level v \<le> charge_level v'" and "charge_level v' = min 1 (charge_level v + 0.05)"
    by blast
  with e range fresh step v show ?thesis by auto
qed

section \<open>The run loop\<close>

lemma run_loop_bounds:
  assumes "run_loop n inputs i e results = Inr (results', e')"
  shows "\<exists>new. results' = results @ new \<and> length new \<le> n \<and>
     current_step e' = current_step e + int (length new) \<and>
     length (faults_detected e') = length (faults_detected e) + sum_list (map res_faults new) \<and>
     (\<forall>k. Suc k < length new \<longrightarrow>
        length (faults_detected e) + sum_list (map res_faults (take (Suc k) new)) \<le> 10) \<and>
     (length new < n \<longrightarrow> 10 < length (faults_detected e'))"
  using assms
proof (induction n arbitrary: i e results)
  case 0
  then show ?case by simp
next
  case (Suc n)
  from Suc.prems obtain r e1 where step: "run_step (inputs i) e = Inr (r, e1)"
    by (auto split: sum.splits)
  note cnt = run_step_counters [OF step]
  show ?case
  proof (cases "10 < length (faults_detected e1)")
    case True
    with Suc.prems step have "results' = results @ [r]" and "e' = e1" by simp_all
    with cnt True show ?thesis by (intro exI [of _ "[r]"]) simp
  next
    case False
    with Suc.prems step have "run_loop n inputs (Suc i) e1 (results @ [r]) = Inr (results', e')"
      by simp
    from Suc.IH [OF this] obtain new where
      new: "results' = (results @ [r]) @ new" "length new \<le> n"
        "current_step e' = current_step e1 + int (length new)"
        "length (faults_detected e') = length (faults_detected e1) + sum_list (map res_faults new)"
      and early: "\<forall>k. Suc k < length new \<longrightarrow>
        length (faults_detected e1) + sum_list (map res_faults (take (Suc k) new)) \<le> 10"
      and stop: "length new < n \<longrightarrow> 10 < length (faults_detected e')"
      by blast
    have "length (faults_detected e) + sum_list (map res_faults (take (Suc k) (r # new))) \<le> 10"
      if "Suc k < length (r # new)" for k
    proof (cases k)
      case 0
      with False cnt show ?thesis by simp
    next
      case (Suc k')
      with that early have "length (faults_detected e1) + sum_list (map res_faults (take (Suc k') new)) \<le> 10"
        by simp
      with Suc cnt show ?thesis by simp
    qed
    with new stop cnt show ?thesis by (intro exI [of _ "r # new"]) simp
  qed
qed

text \<open>
  Claim C7. \<open>run_complete_simulation\<close> makes at most \<open>max_steps\<close> calls of
  \<open>run_step\<close> (none for a negative \<open>max_steps\<close>): the list of step results has
  at most that length, and the step counter has advanced by exactly its length. No
  step is run after a step at whose end the cumulative number of detected faults
  exceeds 10: whenever a step has a successor in the run, the fault count at its end
  (the faults the engine held before plus those of the steps so far) is at most 10;
  and a run that stops before \<open>max_steps\<close> steps ends with more than 10 faults.
  From a well-formed engine the run returns.
\<close>

theorem run_complete_simulation_bounds:
  "(\<forall>res e'. run_complete_simulation inputs e = Inr (res, e') \<longrightarrow>
      length (step_results res) \<le> nat (max_steps (config e)) \<and>
      (0 \<le> max_steps (config e) \<longrightarrow> int (length (step_results res)) \<le> max_steps (config e)) \<and>
      total_steps res = current_step e + int (length (step_results res)) \<and>
      total_faults res =
        length (faults_detected e) + sum_list (map res_faults (step_results res)) \<and>
      (\<forall>k. Suc k < length (step_results res) \<longrightarrow>
         length (faults_detected e) +
           sum_list (map res_faults (take (Suc k) (step_results res))) \<le> 10) \<and>
      (length (step_results res) < nat (max_steps (config e)) \<longrightarrow> 10 < total_faults res)) \<and>
   (engine_wf e \<longrightarrow> (\<exists>res e'. run_complete_simulation inputs e = Inr (res, e')))"
proof (intro conjI allI impI)
  fix res e'
  assume run: "run_complete_simulation inputs e = Inr (res, e')"
  let ?n = "nat (max_steps (config e))"
  from run obtain results where loop: "run_loop ?n inputs 0 e [] = Inr (results, e')"
    and res: "res = \<lparr>total_steps = current_step e', total_faults = length (faults_detected e'),
                     step_results = results\<rparr>"
    by (auto simp: run_complete_simulation_def split: sum.splits)
  from run_loop_bounds [OF loop] have
    b: "length results \<le> ?n" "current_step e' = current_step e + int (length results)"
      "length (faults_detected e') = length (faults_detected e) + sum_list (map res_faults results)"
    and early: "\<forall>k. Suc k < length results \<longrightarrow>
        length (faults_detected e) + sum_list (map res_faults (take (Suc k) results)) \<le> 10"
    and stop: "length results < ?n \<longrightarrow> 10 < length (faults_detected e')"
    by auto
  from b res show "length (step_results res) \<le> nat (max_steps (config e))" by simp
  from b res show "int (length (step_results res)) \<le> max_steps (config e)"
    if "0 \<le> max_steps (config e)" using that by simp
  from b res show "total_steps res = current_step e + int (length (step_results res))" by simp
  from b res show "total_faults res =
        length (faults_detected e) + sum_list (map res_faults (step_results res))" by simp
  from early res show "length (faults_detected e) +
           sum_list (map res_faults (take (Suc k) (step_results res))) \<le> 10"
    if "Suc k < length (step_results res)" for k using that by simp
  from stop res show "10 < total_faults res"
    if "length (step_results res) < nat (max_steps (config e))" using that by simp
next
  assume "engine_wf e"
  from run_loop_ok [OF this, of "nat (max_steps (config e))" inputs 0 "[]"]
  show "\<exists>res e'. run_complete_simulation inputs e = Inr (res, e')"
    by (auto simp: run_complete_simulation_def)
qed

theorem run_complete_simulation_bounds_witness:
  "engine_wf (SimulationEngine_init cfg_six_gates) \<and> 0 \<le> max_steps cfg_six_gates \<and>
   (case run_complete_simulation failing_gates (SimulationEngine_init cfg_six_gates) of
      Inl x \<Rightarrow> False
    | Inr (res, e') \<Rightarrow>
        map res_faults (step_results res) = [6, 6] \<and> total_faults res = 12 \<and>
        total_steps res = 2 \<and> length (step_results res) < nat (max_steps cfg_six_gates))"
proof -
  have wf: "engine_wf (SimulationEngine_init cfg_six_gates)"
    by (rule engine_init_wf) (simp add: config_ok_def cfg_six_gates_def)
  have run: "case run_complete_simulation failing_gates (SimulationEngine_init cfg_six_gates) of
      Inl x \<Rightarrow> False
    | Inr (res, e') \<Rightarrow>
        map res_faults (step_results res) = [6, 6] \<and> total_faults res = 12 \<and>
        total_steps res = 2 \<and> length (step_results res) < nat (max_steps cfg_six_gates)"
    by code_simp
  have m: "0 \<le> max_steps cfg_six_gates" by (simp add: cfg_six_gates_def)
  from run_complete_simulation_bounds [of failing_gates "SimulationEngine_init cfg_six_gates"]
    wf run m
  show ?thesis by simp
qed

section \<open>A run without arrivals\<close>

lemma gate_readings_closed:
  assumes "\<forall>g \<in> set (map snd (gates net)). \<not> is_open g"
  shows "\<forall>item \<in> set (fst (read_all_sensors d net)).
           startswith (fst item) ''gate_'' \<longrightarrow> \<not> truthy (reading_value (snd item))"
proof (rule read_all_sensors_items)
  show "\<forall>(i, s) \<in> set (gates net).
      startswith (fst (sensor_name (fst (gate_read (gate_draws d i) s)), fst (gate_read (gate_draws d i) s))) ''gate_'' \<longrightarrow>
      \<not> truthy (reading_value (snd (sensor_name (fst (gate_read (gate_draws d i) s)), fst (gate_read (gate_draws d i) s))))"
    using assms by (auto simp: gate_read_def)
  show "\<forall>(i, s) \<in> set (occupancy_sensors net).
      startswith (fst (sensor_name (fst (occupancy_read (spot_draws d i) s)), fst (occupancy_read (spot_draws d i) s))) ''gate_'' \<longrightarrow>
      \<not> truthy (reading_value (snd (sensor_name (fst (occupancy_read (spot_draws d i) s)), fst (occupancy_read (spot_draws d i) s))))"
    by (simp add: occupancy_read_def Let_def startswith_def)
  show "\<forall>(i, s) \<in> set (chargers net).
      startswith (fst (sensor_name (fst (charger_read (charger_draws d i) s)), fst (charger_read (charger_draws d i) s))) ''gate_'' \<longrightarrow>
      \<not> truthy (reading_value (snd (sensor_name (fst (charger_read (charger_draws d i) s)), fst (charger_read (charger_draws d i) s))))"
    by (simp add: charger_read_def Let_def startswith_def)
qed

lemma gate_read_is_open: "is_open (snd (gate_read d g)) = is_open g"
  by (simp add: gate_read_def Let_def)

lemma gate_sensors_stay_closed:
  assumes "\<forall>g \<in> set (map snd (gates net)). \<not> is_open g"
  shows "\<forall>g \<in> set (map snd (gates (snd (read_all_sensors d net)))). \<not> is_open g"
  using assms by (auto simp: read_all_sensors_gates gate_read_is_open)

lemma update_reading_gates_closed:
  assumes "update_reading item ds = Inr ds'"
    and "startswith (fst item) ''gate_'' \<longrightarrow> \<not> truthy (reading_value (snd item))"
    and "\<forall>v \<in> set (map snd (gate_states ds)). \<not> truthy v"
  shows "\<forall>v \<in> set (map snd (gate_states ds')). \<not> truthy v"
proof (cases "startswith (fst item) ''gate_''")
  case True
  with assms(1) obtain i where "ds' = ds\<lparr>gate_states := AList.update i (reading_value (snd item)) (gate_states ds)\<rparr>"
    by (cases item) (auto simp: update_reading_def split: sum.splits)
  moreover from True assms(2,3)
  have "\<forall>v \<in> set (map snd (AList.update i (reading_value (snd item)) (gate_states ds))). \<not> truthy v"
    by (intro update_all) auto
  ultimately show ?thesis by simp
next
  case False
  with assms(1) have "gate_states ds' = gate_states ds"
    by (cases item) (auto simp: update_reading_def split: sum.splits if_splits pyval.splits)
  with assms(3) show ?thesis by simp
qed

lemma update_depot_state_gates_closed:
  assumes "update_depot_state sensor_readings ds = Inr ds'"
    and "\<forall>item \<in> set sensor_readings. startswith (fst item) ''gate_'' \<longrightarrow> \<not> truthy (reading_value (snd item))"
    and "\<forall>v \<in> set (map snd (gate_states ds)). \<not> truthy v"
  shows "\<forall>v \<in> set (map snd (gate_states ds')). \<not> truthy v"
  using assms
proof (induction sensor_readings arbitrary: ds)
  case Nil
  then show ?case by simp
next
  case (Cons item rest)
  from Cons.prems(1) obtain ds1 where 1: "update_reading item ds = Inr ds1"
    and 2: "update_depot_state rest ds1 = Inr ds'"
    by (auto split: sum.splits)
  from 1 Cons.prems(2,3) have "\<forall>v \<in> set (map snd (gate_states ds1)). \<not> truthy v"
    by (intro update_reading_gates_closed [of item ds ds1]) simp_all
  with 2 Cons.prems(2) show ?case by (intro Cons.IH [of ds1]) simp_all
qed

lemma control_gates_loop_closed:
  assumes "control_gates_loop gs False ds now = Inr acts"
    and "\<forall>v \<in> set (map snd (gate_states ds)). \<not> truthy v"
  shows "acts = []"
  using assms
proof (induction gs arbitrary: acts)
  case Nil
  then show ?case by simp
next
  case (Cons g gs)
  from Cons.prems(1) obtain cur acts' where cur: "map_of (gate_states ds) g = Some cur"
    and rest: "control_gates_loop gs False ds now = Inr acts'"
    and acts: "acts = gate_action False cur g now @ acts'"
    by (auto split: option.splits sum.splits)
  from Cons.prems(2) cur have "\<not> truthy cur" by (rule map_of_all)
  moreover from rest Cons.prems(2) have "acts' = []" by (rule Cons.IH)
  ultimately show ?case using acts by (simp add: gate_action_def)
qed

lemma process_step_empty:
  assumes "process_step sensor_readings vm ctl now = Inr (vm', ctl', acts)"
    and "vehicles vm = []"
    and "\<forall>item \<in> set sensor_readings. startswith (fst item) ''gate_'' \<longrightarrow> \<not> truthy (reading_value (snd item))"
    and "\<forall>v \<in> set (map snd (gate_states (depot_state ctl))). \<not> truthy v"
  shows "vm' = vm \<and> acts = [] \<and> (\<forall>v \<in> set (map snd (gate_states (depot_state ctl'))). \<not> truthy v)"
proof -
  from assms(1,2) obtain ds gacts where u: "update_depot_state sensor_readings (depot_state ctl) = Inr ds"
    and vm': "vm' = vm" and ctl': "ctl' = ctl\<lparr>depot_state := ds\<rparr>"
    and g: "control_gates vm ctl' now = Inr gacts" and acts: "acts = gacts"
    by (auto simp: process_step_def split: sum.splits)
  from u assms(3,4) have closed: "\<forall>v \<in> set (map snd (gate_states ds)). \<not> truthy v"
    by (rule update_depot_state_gates_closed)
  from assms(2) have "\<not> should_open_gate vm ctl'"
    by (simp add: should_open_gate_def get_vehicles_by_state_def)
  with g have "control_gates_loop (range_py (num_gates ctl')) False ds now = Inr gacts"
    by (simp add: control_gates_def ctl')
  from this closed have "gacts = []" by (rule control_gates_loop_closed)
  with vm' acts ctl' closed show ?thesis by simp
qed

lemma run_step_idle:
  assumes step: "run_step inp e = Inr (r, e')"
    and rate: "vehicle_arrival_rate (config e) = 0" and draw: "0 \<le> arrival_draw inp"
    and empty: "vehicles (vehicle_manager e) = []" and closed: "gates_closed e"
  shows "vehicles (vehicle_manager e') = [] \<and> db_control_actions e' = db_control_actions e \<and>
         gates_closed e' \<and> res_control_actions r = 0 \<and> res_vehicles r = 0"
proof -
  from step obtain e1 e2 sensor_readings vm ctl acts where
    1: "inject_failures (e\<lparr>current_step := current_step e + 1\<rparr>) = Inr e1"
    and 2: "e2 = generate_vehicles (arrival_draw inp) (new_vehicle_id inp) e1"
    and 3: "sensor_readings = fst (read_all_sensors (sensor_draws inp) (sensor_network e1))"
    and 4: "process_step sensor_readings (update_all_vehicles (vehicle_manager e2))
            (engine_controller e1) (current_step e + 1) = Inr (vm, ctl, acts)"
    and 5: "e' = e2\<lparr>sensor_network := snd (read_all_sensors (sensor_draws inp) (sensor_network e1)),
                 vehicle_manager := vm, engine_controller := ctl,
                 faults_detected := faults_detected e @ detect_faults sensor_readings vm (current_step e + 1),
                 db_control_actions := db_control_actions e @ acts\<rparr>"
    and 7: "res_control_actions r = length acts"
    and 8: "res_vehicles r = length (vehicles vm)"
    by (rule run_step_shape) blast
  from closed have c0: "\<forall>g \<in> set (map snd (gates (sensor_network (e\<lparr>current_step := current_step e + 1\<rparr>)))). \<not> is_open g"
    by (simp add: gates_closed_def)
  from 1 obtain net where e1: "e1 = e\<lparr>current_step := current_step e + 1, sensor_network := net\<rparr>"
    and c1: "\<forall>g \<in> set (map snd (gates net)). \<not> is_open g"
    by (rule inject_failures_shape) (use c0 in blast)
  from rate draw 2 e1 have e2: "e2 = e1" by (simp add: generate_vehicles_def)
  have n1: "sensor_network e1 = net" by (simp add: e1)
  have rs: "\<forall>item \<in> set sensor_readings. startswith (fst item) ''gate_'' \<longrightarrow> \<not> truthy (reading_value (snd item))"
    unfolding 3 n1 using c1 by (rule gate_readings_closed)
  have vm0: "vehicles (update_all_vehicles (vehicle_manager e2)) = []"
    using empty by (simp add: e2 e1 update_all_vehicles_def)
  from closed have cs: "\<forall>v \<in> set (map snd (gate_states (depot_state (engine_controller e1)))). \<not> truthy v"
    by (simp add: gates_closed_def e1)
  from process_step_empty [OF 4 vm0 rs cs]
  have vm: "vm = update_all_vehicles (vehicle_manager e2)" and acts: "acts = []"
    and cs': "\<forall>v \<in> set (map snd (gate_states (depot_state ctl))). \<not> truthy v" by simp_all
  have "\<forall>g \<in> set (map snd (gates (snd (read_all_sensors (sensor_draws inp) net)))). \<not> is_open g"
    using c1 by (rule gate_sensors_stay_closed)
  with cs' have "gates_closed e'" by (simp add: gates_closed_def 5 n1)
  with vm vm0 acts 5 7 8 show ?thesis by simp
qed

lemma engine_init_idle:
  "vehicles (vehicle_manager (SimulationEngine_init cfg)) = []"
  "db_control_actions (SimulationEngine_init cfg) = []"
  "gates_closed (SimulationEngine_init cfg)"
  by (auto simp: SimulationEngine_init_def VehicleManager_init_def gates_closed_def
      SensorNetwork_init_def DepotController_init_def GateSensor_init_def)

lemma run_steps_config:
  "run_steps n inputs e = Inr e' \<Longrightarrow> config e' = config e"
proof (induction n arbitrary: e')
  case 0
  then show ?case by simp
next
  case (Suc n)
  from Suc.prems obtain e1 r where 1: "run_steps n inputs e = Inr e1"
    and 2: "run_step (inputs n) e1 = Inr (r, e')"
    by (auto split: sum.splits)
  from Suc.IH [OF 1] run_step_counters(2) [OF 2] show ?case by simp
qed

text \<open>
  Claim C9. With \<open>vehicle_arrival_rate = 0\<close>, arrival draws that are not negative
  (as \<open>random.random()\<close> gives them) and the engine as its constructor leaves it,
  after any number of steps the registry holds no vehicle and no control action has
  been handed to the log. The run does get that far whenever the configured failure
  injections have a device to hit.
\<close>

theorem no_arrivals_no_actions:
  assumes "vehicle_arrival_rate cfg = 0" and "\<forall>i. 0 \<le> arrival_draw (inputs i)"
  shows "(\<forall>e. run_steps n inputs (SimulationEngine_init cfg) = Inr e \<longrightarrow>
            vehicles (vehicle_manager e) = [] \<and> db_control_actions e = []) \<and>
         (config_ok cfg \<longrightarrow> (\<exists>e. run_steps n inputs (SimulationEngine_init cfg) = Inr e))"
proof (intro conjI allI impI)
  fix e
  assume "run_steps n inputs (SimulationEngine_init cfg) = Inr e"
  then have "vehicles (vehicle_manager e) = [] \<and> db_control_actions e = [] \<and> gates_closed e"
  proof (induction n arbitrary: e)
    case 0
    then show ?case using engine_init_idle [of cfg] by auto
  next
    case (Suc n)
    from Suc.prems obtain e1 r where 1: "run_steps n inputs (SimulationEngine_init cfg) = Inr e1"
      and 2: "run_step (inputs n) e1 = Inr (r, e)"
      by (auto split: sum.splits)
    from run_steps_config [OF 1] assms(1) have rate: "vehicle_arrival_rate (config e1) = 0"
      by (simp add: SimulationEngine_init_def)
    from Suc.IH [OF 1] have "vehicles (vehicle_manager e1) = []" "db_control_actions e1 = []"
      "gates_closed e1" by simp_all
    with run_step_idle [OF 2 rate] assms(2) show ?case by simp
  qed
  then show "vehicles (vehicle_manager e) = []" and "db_control_actions e = []" by simp_all
next
  assume "config_ok cfg"
  then have "engine_wf (SimulationEngine_init cfg)" by (rule engine_init_wf)
  from run_steps_ok [OF this, of n inputs]
  show "\<exists>e. run_steps n inputs (SimulationEngine_init cfg) = Inr e" by blast
qed

theorem no_arrivals_no_actions_witness:
  "vehicle_arrival_rate cfg_no_arrivals = 0 \<and> (\<forall>i. 0 \<le> arrival_draw (zero_draws i)) \<and>
   config_ok cfg_no_arrivals \<and>
   (case run_steps 4 zero_draws (SimulationEngine_init cfg_no_arrivals) of
      Inl x \<Rightarrow> False
    | Inr e \<Rightarrow> vehicles (vehicle_manager e) = [] \<and> db_control_actions e = [] \<and>
        current_step e = 4 \<and> length (faults_detected e) = 20)"
proof -
  have rate: "vehicle_arrival_rate cfg_no_arrivals = 0" by (simp add: cfg_no_arrivals_def)
  have draws: "\<forall>i. 0 \<le> arrival_draw (zero_draws i)" by (simp add: zero_draws_def)
  have ok: "config_ok cfg_no_arrivals" by (simp add: config_ok_def cfg_no_arrivals_def)
  have run: "case run_steps 4 zero_draws (SimulationEngine_init cfg_no_arrivals) of
      Inl x \<Rightarrow> False
    | Inr e \<Rightarrow> current_step e = 4 \<and> length (faults_detected e) = 20"
    by code_simp
  from run obtain e where e: "run_steps 4 zero_draws (SimulationEngine_init cfg_no_arrivals) = Inr e"
    and more: "current_step e = 4" "length (faults_detected e) = 20"
    by (auto split: sum.splits)
  from no_arrivals_no_actions [OF rate draws, of 4] e
  have "vehicles (vehicle_manager e) = [] \<and> db_control_actions e = []" by blast
  with e more rate draws ok show ?thesis by simp
qed

end
